theory Spec2Isabelle
  imports Complex_Main
begin

section \<open>Data model of the remote session bridge (remoteUiServer.ts)\<close>

text \<open>
  Opaque payloads (messages, the state snapshot, HTTP bodies) are JSON values.
\<close>

datatype json =
    JNull
  | JBool bool
  | JNum int
  | JStr string
  | JArr "json list"
  | JObj "(string \<times> json) list"

type_synonym RemoteMessage = json

type_synonym socket_id = string

text \<open>
  \<^verbatim>\<open>interface SessionInfo { id; workspaceName; port; startTime; pin }\<close>.
  The field \<^verbatim>\<open>id\<close> is called \<open>id_info\<close> here, since \<open>id\<close> is the identity function of HOL.
\<close>

record SessionInfo =
  id_info :: string
  workspaceName :: string
  port :: int
  startTime :: int
  pin :: string

text \<open>
  The events the server emits on a socket: \<^verbatim>\<open>authenticated {success, error?}\<close>,
  \<^verbatim>\<open>initialState\<close>, \<^verbatim>\<open>message\<close> and \<^verbatim>\<open>error {message}\<close>.
\<close>

datatype server_event =
    Authenticated bool "string option"
  | InitialState json
  | Message RemoteMessage
  | Error string

text \<open>
  What a handler does to the outside: an emit on one socket, or a call of one of the two
  callbacks of the state owner.
\<close>

datatype effect =
    SocketEmit socket_id server_event
  | GetStateCalled
  | OnMessageCalled RemoteMessage

datatype error =
    CouldNotFindPort nat
  | ListenError

text \<open>
  The fields of class \<^verbatim>\<open>RemoteUiServer\<close>; \<^verbatim>\<open>this._port\<close> is \<open>this_port\<close>, and so on.
  \<^item> \<open>this_server\<close>: \<^verbatim>\<open>null\<close>, or the HTTP server made by \<^verbatim>\<open>listen\<close> on the given port.
  \<^item> \<open>this_io\<close>: \<^verbatim>\<open>null\<close>, or the Socket.IO server with the ids of the sockets connected to it.
  \<^item> \<open>replaced_io\<close> is not a field of the class: it holds the Socket.IO servers that \<^verbatim>\<open>_io\<close>
    held when a later \<^verbatim>\<open>start\<close> overwrote the field, each with the sockets connected to it.
    Nothing in the class closes such a server, so its sockets stay open and their handlers,
    closures over this instance, stay installed.
  \<^item> \<open>this_authenticatedSockets\<close>: a JavaScript \<^verbatim>\<open>Set\<close>, kept in insertion order.
  \<^item> the two callbacks are closures over the state owner (the webview provider), whose state is
    \<open>provider\<close>; the message callback returns the owner's new state and the messages it passes
    to \<^verbatim>\<open>respond\<close> before it returns.
  \<^item> \<open>context_globalState\<close>: the list stored under \<^verbatim>\<open>tasksync.remoteSessions\<close>
    (\<^verbatim>\<open>[]\<close> when the key is absent).
\<close>

record 'o bridge =
  this_server :: "int option"
  this_io :: "socket_id list option"
  replaced_io :: "socket_id list list"
  this_port :: int
  this_pin :: string
  this_sessionId :: string
  this_authenticatedSockets :: "socket_id list"
  this_onMessageCallback :: "('o \<Rightarrow> RemoteMessage \<Rightarrow> 'o \<times> RemoteMessage list) option"
  this_getStateCallback :: "('o \<Rightarrow> json) option"
  context_globalState :: "SessionInfo list"
  provider :: 'o

section \<open>Number.toString on integers\<close>

definition digitChar :: "nat \<Rightarrow> char" where
  "digitChar d = ''0123456789'' ! d"

fun natToString :: "nat \<Rightarrow> string" where
  "natToString n = (if n < 10 then [digitChar n] else natToString (n div 10) @ [digitChar (n mod 10)])"

declare natToString.simps [simp del]

definition toString :: "int \<Rightarrow> string" where
  "toString n = (if n < 0 then CHR ''-'' # natToString (nat (- n)) else natToString (nat n))"

section \<open>Arithmetic on doubles\<close>

text \<open>
  A JavaScript number is an IEEE 754 double: a sign, a significand of 53 bits and an exponent.
  The doubles between \<open>2 ^ e\<close> and \<open>2 ^ (e + 1)\<close> are the multiples of \<open>2 ^ (e - 52)\<close>; below
  \<open>2 ^ - 1022\<close> (the subnormal numbers) they are the multiples of \<open>2 ^ - 1074\<close>. An arithmetic
  operation gives the double nearest to the exact result, and of two nearest ones the one
  with an even significand. Overflow to infinity is left out: the numbers of this program
  stay below \<open>2 ^ 14\<close>.
\<close>

text \<open>The integer nearest to \<open>y\<close>, the even one of two nearest.\<close>

definition roundTiesToEven :: "real \<Rightarrow> int" where
  "roundTiesToEven y =
     (let f = \<lfloor>y\<rfloor>
      in if y - of_int f < 1 / 2 then f
         else if 1 / 2 < y - of_int f then f + 1
         else if even f then f else f + 1)"

text \<open>
  The exponent \<open>e\<close> with \<open>2 ^ e \<le> x < 2 ^ (e + 1)\<close>, found by halving (from 1 up, at most 1023
  times) or doubling (below 1, at most 1022 times: the exponent of the subnormal numbers is
  \<open>- 1022\<close>).
\<close>

fun exponent_above :: "nat \<Rightarrow> real \<Rightarrow> int" where
  "exponent_above 0 x = 0"
| "exponent_above (Suc n) x = (if x < 2 then 0 else exponent_above n (x / 2) + 1)"

fun exponent_below :: "nat \<Rightarrow> real \<Rightarrow> int" where
  "exponent_below 0 x = 0"
| "exponent_below (Suc n) x = (if 1 \<le> x then 0 else exponent_below n (2 * x) - 1)"

definition binade :: "real \<Rightarrow> int" where
  "binade x = (if 1 \<le> x then exponent_above 1023 x else exponent_below 1022 x)"

definition pow2 :: "int \<Rightarrow> real" where
  "pow2 k = (if 0 \<le> k then 2 ^ nat k else 1 / 2 ^ nat (- k))"

text \<open>The distance between neighbouring doubles around \<open>x\<close>, and rounding to a double.\<close>

definition double_ulp :: "real \<Rightarrow> real" where
  "double_ulp x = pow2 (binade \<bar>x\<bar> - 52)"

definition double_round :: "real \<Rightarrow> real" where
  "double_round x = of_int (roundTiesToEven (x / double_ulp x)) * double_ulp x"

text \<open>A real number is a double when rounding leaves it as it is.\<close>

definition is_double :: "real \<Rightarrow> bool" where
  "is_double x = (\<bar>x\<bar> < 2 ^ 1024 \<and> double_round x = x)"

section \<open>PIN and constructor\<close>

text \<open>
  \<^verbatim>\<open>Math.floor(1000 + Math.random() * 9000).toString()\<close>. The argument \<open>random\<close> is the value
  of \<^verbatim>\<open>Math.random()\<close>, a double with \<open>0 \<le> random < 1\<close>. The product and the sum are
  operations on doubles: each is the exact result rounded to a double.
\<close>

definition generatePin_number :: "real \<Rightarrow> int" where
  "generatePin_number random = \<lfloor>double_round (1000 + double_round (random * 9000))\<rfloor>"

definition generatePin :: "real \<Rightarrow> string" where
  "generatePin random = toString (generatePin_number random)"

text \<open>
  The constructor. \<open>random\<close> is the \<^verbatim>\<open>Math.random()\<close> of the PIN, \<open>now\<close> is \<^verbatim>\<open>Date.now()\<close> and
  \<open>suffix\<close> is \<^verbatim>\<open>Math.random().toString(36).substring(2, 9)\<close>; \<open>gs\<close> is the list held by
  the extension context's global state and \<open>owner\<close> the state of the state owner.
\<close>

definition constructor :: "SessionInfo list \<Rightarrow> 'o \<Rightarrow> real \<Rightarrow> int \<Rightarrow> string \<Rightarrow> 'o bridge" where
  "constructor gs owner random now suffix =
     \<lparr> this_server = None,
       this_io = None,
       replaced_io = [],
       this_port = 0,
       this_pin = generatePin random,
       this_sessionId = ''session_'' @ toString now @ ''_'' @ suffix,
       this_authenticatedSockets = [],
       this_onMessageCallback = None,
       this_getStateCallback = None,
       context_globalState = gs,
       provider = owner \<rparr>"

definition onMessage ::
  "'o bridge \<Rightarrow> ('o \<Rightarrow> RemoteMessage \<Rightarrow> 'o \<times> RemoteMessage list) \<Rightarrow> 'o bridge" where
  "onMessage this callback = this\<lparr>this_onMessageCallback := Some callback\<rparr>"

definition onGetState :: "'o bridge \<Rightarrow> ('o \<Rightarrow> json) \<Rightarrow> 'o bridge" where
  "onGetState this callback = this\<lparr>this_getStateCallback := Some callback\<rparr>"

section \<open>Port allocator\<close>

definition maxAttempts :: nat where
  "maxAttempts = 100"

text \<open>
  \<^verbatim>\<open>_findAvailablePort\<close>: the loop \<^verbatim>\<open>for (let i = 0; i < maxAttempts; i++)\<close>, with
  \<open>checkPort p\<close> true when the probe \<^verbatim>\<open>_checkPort(port)\<close> resolves (port \<open>p\<close> can be bound)
  and false when it rejects; \<open>p\<close> is the variable \<^verbatim>\<open>port\<close> of the source.
\<close>

function findAvailablePort_loop :: "(int \<Rightarrow> bool) \<Rightarrow> nat \<Rightarrow> int \<Rightarrow> error + int" where
  "findAvailablePort_loop checkPort i p =
     (if i < maxAttempts
      then (if checkPort p then Inr p
            else findAvailablePort_loop checkPort (i + 1) (p + 1))
      else Inl (CouldNotFindPort maxAttempts))"
  by pat_completeness auto
termination
  by (relation "measure (\<lambda>(checkPort, i, p). maxAttempts - i)") auto

declare findAvailablePort_loop.simps [simp del]

definition findAvailablePort :: "(int \<Rightarrow> bool) \<Rightarrow> int \<Rightarrow> error + int" where
  "findAvailablePort checkPort startPort = findAvailablePort_loop checkPort 0 startPort"

section \<open>Session registry\<close>

text \<open>
  \<^verbatim>\<open>_registerSession\<close>; \<open>folderName\<close> is \<^verbatim>\<open>workspaceFolders?.[0]?.name\<close> (\<open>None\<close> when
  undefined) and \<open>now\<close> is \<^verbatim>\<open>Date.now()\<close>.
\<close>

definition registerSession :: "'o bridge \<Rightarrow> string option \<Rightarrow> int \<Rightarrow> 'o bridge" where
  "registerSession this folderName now =
     (let wsName =
            (case folderName of
               None \<Rightarrow> ''Untitled Workspace''
             | Some n \<Rightarrow> if n = [] then ''Untitled Workspace'' else n);
          session = \<lparr> id_info = this_sessionId this,
                      workspaceName = wsName,
                      port = this_port this,
                      startTime = now,
                      pin = this_pin this \<rparr>;
          sessions = context_globalState this;
          filtered = filter (\<lambda>s. port s \<noteq> this_port this) sessions
      in this\<lparr>context_globalState := filtered @ [session]\<rparr>)"

definition unregisterSession :: "'o bridge \<Rightarrow> 'o bridge" where
  "unregisterSession this =
     (let sessions = context_globalState this;
          filtered = filter (\<lambda>s. id_info s \<noteq> this_sessionId this) sessions
      in this\<lparr>context_globalState := filtered\<rparr>)"

definition getAllSessions :: "'o bridge \<Rightarrow> SessionInfo list" where
  "getAllSessions this = context_globalState this"

text \<open>
  The registry is shared by every bridge instance of the host: an operation on it is a
  registration or an unregistration done by some instance, which sees the shared list as its
  \<open>context_globalState\<close>.
\<close>

datatype 'o registry_op =
    RegisterBy "'o bridge" "string option" int
  | UnregisterBy "'o bridge"

fun apply_registry_op :: "'o registry_op \<Rightarrow> SessionInfo list \<Rightarrow> SessionInfo list" where
  "apply_registry_op (RegisterBy b folderName now) sessions =
     context_globalState (registerSession (b\<lparr>context_globalState := sessions\<rparr>) folderName now)"
| "apply_registry_op (UnregisterBy b) sessions =
     context_globalState (unregisterSession (b\<lparr>context_globalState := sessions\<rparr>))"

section \<open>Start and stop\<close>

text \<open>
  \<^verbatim>\<open>_setupSocketIO\<close> makes a new Socket.IO server on \<^verbatim>\<open>this._server\<close>; no socket is
  connected to a new server. The handlers it installs are the functions of the next section.
  The assignment overwrites \<^verbatim>\<open>this._io\<close> and closes nothing: a server that the field held
  before stays open with its sockets, and is kept in \<open>replaced_io\<close>.
\<close>

definition setupSocketIO :: "'o bridge \<Rightarrow> 'o bridge" where
  "setupSocketIO this =
     (case this_server this of
        None \<Rightarrow> this
      | Some srv \<Rightarrow>
          this\<lparr>this_io := Some [],
               replaced_io := (case this_io this of
                                 None \<Rightarrow> replaced_io this
                               | Some sockets \<Rightarrow> replaced_io this @ [sockets])\<rparr>)"

text \<open>
  What \<^verbatim>\<open>start\<close> reads from its environment: the outcome of each probe \<^verbatim>\<open>_checkPort\<close>, whether
  the final \<^verbatim>\<open>listen\<close> reaches its callback (\<open>listening\<close>) or the server emits \<^verbatim>\<open>error\<close>,
  the name of the first workspace folder and the clock.
\<close>

record start_env =
  checkPort :: "int \<Rightarrow> bool"
  listening :: bool
  folderName :: "string option"
  now :: int

text \<open>
  \<^verbatim>\<open>start(preferredPort?)\<close> returns the instance after the call and the outcome of the
  promise: \<open>Inr\<close> the port it resolves with, \<open>Inl\<close> the error it rejects with.
  \<^verbatim>\<open>preferredPort || 3000\<close> is 3000 when the argument is undefined or 0.
\<close>

definition start :: "'o bridge \<Rightarrow> int option \<Rightarrow> start_env \<Rightarrow> 'o bridge \<times> (error + int)" where
  "start this preferredPort env =
     (let startPort = (case preferredPort of
                         None \<Rightarrow> 3000
                       | Some pp \<Rightarrow> if pp = 0 then 3000 else pp)
      in case findAvailablePort (checkPort env) startPort of
           Inl e \<Rightarrow> (this, Inl e)
         | Inr p \<Rightarrow>
             (let this1 = this\<lparr>this_port := p\<rparr>;
                  this2 = this1\<lparr>this_server := Some p\<rparr>
              in if listening env
                 then (registerSession (setupSocketIO this2) (folderName env) (now env), Inr p)
                 else (this2, Inl ListenError)))"

text \<open>
  \<^verbatim>\<open>stop()\<close> closes the Socket.IO server and the HTTP server that the fields hold, and no
  other: the servers in \<open>replaced_io\<close> stay open.
\<close>

definition stop :: "'o bridge \<Rightarrow> 'o bridge" where
  "stop this =
     (let this1 = unregisterSession this;
          this2 = (case this_io this1 of
                     Some sockets \<Rightarrow> this1\<lparr>this_io := None\<rparr>
                   | None \<Rightarrow> this1);
          this3 = (case this_server this2 of
                     Some srv \<Rightarrow> this2\<lparr>this_server := None\<rparr>
                   | None \<Rightarrow> this2)
      in this3\<lparr>this_authenticatedSockets := []\<rparr>)"

section \<open>Socket handlers and broadcast\<close>

text \<open>\<^verbatim>\<open>Set.add\<close> and \<^verbatim>\<open>Set.delete\<close> on a set kept in insertion order.\<close>

definition set_add :: "'a \<Rightarrow> 'a list \<Rightarrow> 'a list" where
  "set_add x xs = (if x \<in> set xs then xs else xs @ [x])"

definition set_delete :: "'a \<Rightarrow> 'a list \<Rightarrow> 'a list" where
  "set_delete x xs = filter (\<lambda>y. y \<noteq> x) xs"

text \<open>
  \<^verbatim>\<open>socket.on('authenticate', (data: { pin: string }) => ...)\<close>, for the socket with id
  \<open>socket\<close>; \<open>data_pin\<close> is \<^verbatim>\<open>data.pin\<close>.
\<close>

definition socket_on_authenticate ::
  "'o bridge \<Rightarrow> socket_id \<Rightarrow> string \<Rightarrow> 'o bridge \<times> effect list" where
  "socket_on_authenticate this socket data_pin =
     (if data_pin = this_pin this
      then (let this1 = this\<lparr>this_authenticatedSockets :=
                               set_add socket (this_authenticatedSockets this)\<rparr>;
                out1 = [SocketEmit socket (Authenticated True None)]
            in case this_getStateCallback this1 of
                 Some callback \<Rightarrow>
                   (this1, out1 @ [GetStateCalled,
                                   SocketEmit socket (InitialState (callback (provider this1)))])
               | None \<Rightarrow> (this1, out1))
      else (this, [SocketEmit socket (Authenticated False (Some ''Invalid PIN''))]))"

text \<open>
  \<^verbatim>\<open>socket.on('message', (message) => ...)\<close>. The callback gets \<^verbatim>\<open>message\<close> and a
  \<^verbatim>\<open>respond\<close> that emits \<^verbatim>\<open>message\<close> on this socket.
\<close>

definition socket_on_message ::
  "'o bridge \<Rightarrow> socket_id \<Rightarrow> RemoteMessage \<Rightarrow> 'o bridge \<times> effect list" where
  "socket_on_message this socket message =
     (if socket \<notin> set (this_authenticatedSockets this)
      then (this, [SocketEmit socket (Error ''Not authenticated'')])
      else (case this_onMessageCallback this of
              Some callback \<Rightarrow>
                (let (owner, responses) = callback (provider this) message
                 in (this\<lparr>provider := owner\<rparr>,
                     OnMessageCalled message #
                       map (\<lambda>response. SocketEmit socket (Message response)) responses))
            | None \<Rightarrow> (this, [])))"

text \<open>\<^verbatim>\<open>socket.on('disconnect', ...)\<close>.\<close>

definition socket_on_disconnect :: "'o bridge \<Rightarrow> socket_id \<Rightarrow> 'o bridge" where
  "socket_on_disconnect this socket =
     this\<lparr>this_authenticatedSockets := set_delete socket (this_authenticatedSockets this)\<rparr>"

text \<open>
  \<^verbatim>\<open>io.to(room).emit(ev)\<close> reaches the sockets of the server that are in the room; every
  socket is in the room of its own id, and this code joins no other room.
\<close>

definition io_to_emit :: "socket_id list \<Rightarrow> socket_id \<Rightarrow> server_event \<Rightarrow> effect list" where
  "io_to_emit sockets room ev = map (\<lambda>socket. SocketEmit socket ev) (filter (\<lambda>socket. socket = room) sockets)"

definition broadcast :: "'o bridge \<Rightarrow> RemoteMessage \<Rightarrow> effect list" where
  "broadcast this message =
     (case this_io this of
        None \<Rightarrow> []
      | Some sockets \<Rightarrow>
          concat (map (\<lambda>socketId. io_to_emit sockets socketId (Message message))
                      (this_authenticatedSockets this)))"

section \<open>HTTP routes\<close>

text \<open>
  The routes of \<^verbatim>\<open>_setupRoutes\<close> that answer from the instance's state: \<^verbatim>\<open>/api/sessions\<close>,
  \<^verbatim>\<open>/\<close> and \<^verbatim>\<open>/app\<close> (static files, the manifest and the service worker are left out).
  \<open>query_pin\<close> is \<^verbatim>\<open>req.query.pin\<close>, \<open>None\<close> when the query has no pin.
\<close>

datatype route = ApiSessions | Landing | App

datatype page = LandingHtml | AppHtml

datatype response = ResJson json | ResRedirect string | ResSend page

text \<open>\<^verbatim>\<open>res.json\<close> on a \<^verbatim>\<open>SessionInfo\<close>: every field of the object, in the order it was built.\<close>

definition SessionInfo_json :: "SessionInfo \<Rightarrow> json" where
  "SessionInfo_json s =
     JObj [(''id'', JStr (id_info s)),
           (''workspaceName'', JStr (workspaceName s)),
           (''port'', JNum (port s)),
           (''startTime'', JNum (startTime s)),
           (''pin'', JStr (pin s))]"

definition handle_get :: "'o bridge \<Rightarrow> route \<Rightarrow> string option \<Rightarrow> response" where
  "handle_get this r query_pin =
     (case r of
        ApiSessions \<Rightarrow> ResJson (JArr (map SessionInfo_json (getAllSessions this)))
      | Landing \<Rightarrow>
          (case query_pin of
             Some qp \<Rightarrow> if qp \<noteq> [] \<and> qp = this_pin this
                        then ResRedirect (''/app?pin='' @ qp) else ResSend LandingHtml
           | None \<Rightarrow> ResSend LandingHtml)
      | App \<Rightarrow>
          (let qp = (case query_pin of Some q \<Rightarrow> q | None \<Rightarrow> [])
           in if qp \<noteq> this_pin this then ResRedirect ''/?error=invalid_pin''
              else ResSend AppHtml))"

text \<open>The field of a JSON object: the first pair with that key.\<close>

fun json_field :: "string \<Rightarrow> json \<Rightarrow> json option" where
  "json_field k (JObj kvs) = map_of kvs k"
| "json_field k j = None"

section \<open>Runs of one bridge instance\<close>

text \<open>
  What can happen to a bridge instance: its public methods are called, and sockets connect
  to one of its Socket.IO servers (the one in \<^verbatim>\<open>_io\<close>, or one that a later start replaced and
  left open), send \<^verbatim>\<open>authenticate\<close> and \<^verbatim>\<open>message\<close>, and disconnect.
  Socket.IO gives every socket an id of its own, calls a socket's handlers only while the
  socket is connected, and removes the socket from its server when it disconnects.
\<close>

datatype 'o action =
    Start "int option" start_env
  | Stop
  | OnGetState "'o \<Rightarrow> json"
  | OnMessage "'o \<Rightarrow> RemoteMessage \<Rightarrow> 'o \<times> RemoteMessage list"
  | Broadcast RemoteMessage
  | Connect socket_id
  | ConnectReplaced nat socket_id
  | Authenticate socket_id string
  | ClientMessage socket_id RemoteMessage
  | Disconnect socket_id

text \<open>The sockets that are open: those of the server in \<^verbatim>\<open>_io\<close> and those of the replaced servers.\<close>

definition open_sockets :: "'o bridge \<Rightarrow> socket_id list" where
  "open_sockets this =
     (case this_io this of None \<Rightarrow> [] | Some sockets \<Rightarrow> sockets) @ concat (replaced_io this)"

definition connected :: "'o bridge \<Rightarrow> socket_id \<Rightarrow> bool" where
  "connected this socket = (socket \<in> set (open_sockets this))"

fun step :: "'o bridge \<Rightarrow> 'o action \<Rightarrow> 'o bridge \<times> effect list" where
  "step this (Start preferredPort env) = (fst (start this preferredPort env), [])"
| "step this Stop = (stop this, [])"
| "step this (OnGetState callback) = (onGetState this callback, [])"
| "step this (OnMessage callback) = (onMessage this callback, [])"
| "step this (Broadcast message) = (this, broadcast this message)"
| "step this (Connect socket) =
     (case this_io this of
        None \<Rightarrow> (this, [])
      | Some sockets \<Rightarrow>
          if connected this socket then (this, [])
          else (this\<lparr>this_io := Some (sockets @ [socket])\<rparr>, []))"
| "step this (ConnectReplaced n socket) =
     (if n < length (replaced_io this) \<and> \<not> connected this socket
      then (this\<lparr>replaced_io := (replaced_io this)[n := replaced_io this ! n @ [socket]]\<rparr>, [])
      else (this, []))"
| "step this (Authenticate socket data_pin) =
     (if connected this socket then socket_on_authenticate this socket data_pin else (this, []))"
| "step this (ClientMessage socket message) =
     (if connected this socket then socket_on_message this socket message else (this, []))"
| "step this (Disconnect socket) =
     (if connected this socket
      then ((socket_on_disconnect this socket)
              \<lparr>this_io := map_option (set_delete socket) (this_io this),
               replaced_io := map (set_delete socket) (replaced_io this)\<rparr>, [])
      else (this, []))"

fun run :: "'o bridge \<Rightarrow> 'o action list \<Rightarrow> 'o bridge \<times> effect list" where
  "run this [] = (this, [])"
| "run this (a # as) =
     (let (this1, out1) = step this a;
          (this2, out2) = run this1 as
      in (this2, out1 @ out2))"

section \<open>A concrete instance\<close>

text \<open>
  One bridge instance, used to evaluate the definitions: its state owner keeps a queue of the
  messages it has received, its snapshot is that queue, and its message callback does not
  call \<^verbatim>\<open>respond\<close> (as the extension's does not). The bridge of another window is
  registered on port 3000, so port 3000 is taken; every other port is free.
\<close>

definition ex_other :: SessionInfo where
  "ex_other = \<lparr> id_info = ''session_900_a1b2c3d'', workspaceName = ''other'', port = 3000,
               startTime = 900, pin = ''4821'' \<rparr>"

definition ex_env :: start_env where
  "ex_env = \<lparr> checkPort = (\<lambda>p. p \<noteq> 3000), listening = True, folderName = Some ''demo'', now = 2000 \<rparr>"

definition ex_getState :: "json list \<Rightarrow> json" where
  "ex_getState queue = JObj [(''queue'', JArr queue)]"

definition ex_onMessage :: "json list \<Rightarrow> RemoteMessage \<Rightarrow> json list \<times> RemoteMessage list" where
  "ex_onMessage queue message = (queue @ [message], [])"

definition ex_new :: "json list bridge" where
  "ex_new = constructor [ex_other] [] (1 / 2) 1000 ''k3j9x2a''"

text \<open>The record this instance registers when it starts.\<close>

definition ex_record :: SessionInfo where
  "ex_record = \<lparr> id_info = ''session_1000_k3j9x2a'', workspaceName = ''demo'', port = 3001,
                startTime = 2000, pin = ''5500'' \<rparr>"

text \<open>Started with two sockets connected, without and with the two callbacks.\<close>

definition ex_bare :: "json list bridge" where
  "ex_bare = fst (run ex_new [Start (Some 3000) ex_env, Connect ''A'', Connect ''B''])"

definition ex_wired :: "json list bridge" where
  "ex_wired = fst (run ex_new [OnGetState ex_getState, OnMessage ex_onMessage,
                               Start (Some 3000) ex_env, Connect ''A'', Connect ''B''])"

text \<open>The same two, after socket \<open>A\<close> has sent the right PIN.\<close>

definition ex_bare_A :: "json list bridge" where
  "ex_bare_A = fst (step ex_bare (Authenticate ''A'' ''5500''))"

definition ex_wired_A :: "json list bridge" where
  "ex_wired_A = fst (step ex_wired (Authenticate ''A'' ''5500''))"

text \<open>
  Then \<^verbatim>\<open>start(3000)\<close> is called again, without a \<^verbatim>\<open>stop()\<close>: ports 3000 and 3001 are taken,
  the second by the instance's own first server.
\<close>

definition ex_env2 :: start_env where
  "ex_env2 = \<lparr> checkPort = (\<lambda>p. p \<noteq> 3000 \<and> p \<noteq> 3001), listening = True,
               folderName = Some ''demo'', now = 3000 \<rparr>"

definition ex_record2 :: SessionInfo where
  "ex_record2 = \<lparr> id_info = ''session_1000_k3j9x2a'', workspaceName = ''demo'', port = 3002,
                 startTime = 3000, pin = ''5500'' \<rparr>"

definition ex_restarted :: "json list bridge" where
  "ex_restarted = fst (step ex_wired_A (Start (Some 3000) ex_env2))"

section \<open>Rounding to a double\<close>

lemma roundTiesToEven_le: "y \<le> of_int k \<Longrightarrow> roundTiesToEven y \<le> k"
proof -
  assume h: "y \<le> of_int k"
  have fk: "\<lfloor>y\<rfloor> \<le> k" using h by (simp add: floor_le_iff)
  show ?thesis
  proof (cases "\<lfloor>y\<rfloor> = k")
    case True
    then have "of_int k \<le> y" by (metis of_int_floor_le)
    then have "y = of_int k" using h by simp
    then show ?thesis by (simp add: roundTiesToEven_def)
  next
    case False
    then have "\<lfloor>y\<rfloor> + 1 \<le> k" using fk by simp
    then show ?thesis by (simp add: roundTiesToEven_def Let_def)
  qed
qed

lemma roundTiesToEven_ge: "of_int k \<le> y \<Longrightarrow> k \<le> roundTiesToEven y"
proof -
  assume "of_int k \<le> y"
  then have "k \<le> \<lfloor>y\<rfloor>" by (simp add: le_floor_iff)
  then show ?thesis by (simp add: roundTiesToEven_def Let_def)
qed

lemma roundTiesToEven_of_int: "roundTiesToEven (of_int k) = k"
  by (simp add: roundTiesToEven_def)

lemma roundTiesToEven_up:
  assumes "of_int k - 1 / 2 < y" and "y \<le> of_int k"
  shows "roundTiesToEven y = k"
proof (cases "y = of_int k")
  case True
  then show ?thesis by (simp add: roundTiesToEven_of_int)
next
  case False
  then have lt: "y < of_int k" using assms(2) by simp
  have "\<lfloor>y\<rfloor> = k - 1"
    using assms(1) lt by (intro floor_unique) simp_all
  then show ?thesis using assms(1) by (simp add: roundTiesToEven_def Let_def)
qed

lemma exponent_below_le: "exponent_below n x \<le> 0"
proof (induction n arbitrary: x)
  case 0
  show ?case by simp
next
  case (Suc n)
  have "exponent_below n (2 * x) \<le> 0" by (rule Suc.IH)
  then show ?case by simp
qed

lemma exponent_below_eq:
  "1 \<le> x * 2 ^ k \<Longrightarrow> x * 2 ^ k < 2 \<Longrightarrow> x < 1 \<Longrightarrow> k \<le> n \<Longrightarrow> exponent_below n x = - int k"
proof (induction n arbitrary: x k)
  case 0
  then show ?case by simp
next
  case (Suc n)
  obtain k' where k: "k = Suc k'"
    using Suc.prems(1,3) by (cases k) auto
  show ?case
  proof (cases "2 * x < 1")
    case True
    have "exponent_below n (2 * x) = - int k'"
      using Suc.prems True k by (intro Suc.IH) (simp_all add: mult.assoc)
    then show ?thesis using Suc.prems(3) k by simp
  next
    case False
    have half: "1 \<le> 2 * x" using False by simp
    have "k' = 0"
    proof (rule ccontr)
      assume "k' \<noteq> 0"
      then have "(2::real) \<le> 2 ^ k'" by (cases k') simp_all
      then have "x * 2 \<le> x * 2 ^ k'" using half by (intro mult_left_mono) simp_all
      moreover have "x * 2 ^ k' < 1" using Suc.prems(2) k by simp
      ultimately show False using half by linarith
    qed
    then show ?thesis using Suc.prems(3) False k by (cases n) simp_all
  qed
qed

lemma exponent_above_le: "x < 2 ^ Suc m \<Longrightarrow> exponent_above n x \<le> int m"
proof (induction n arbitrary: x m)
  case 0
  then show ?case by simp
next
  case (Suc n)
  show ?case
  proof (cases "x < 2")
    case True
    then show ?thesis by simp
  next
    case False
    then obtain m' where m: "m = Suc m'"
      using Suc.prems by (cases m) auto
    have "x / 2 < 2 ^ Suc m'" using Suc.prems m by simp
    then have "exponent_above n (x / 2) \<le> int m'" by (rule Suc.IH)
    then show ?thesis using False m by simp
  qed
qed

lemma exponent_above_eq:
  "2 ^ k \<le> x \<Longrightarrow> x < 2 ^ Suc k \<Longrightarrow> k \<le> n \<Longrightarrow> exponent_above n x = int k"
proof (induction n arbitrary: x k)
  case 0
  then show ?case by simp
next
  case (Suc n)
  show ?case
  proof (cases k)
    case 0
    then show ?thesis using Suc.prems by simp
  next
    case (Suc k')
    have ge: "2 \<le> x"
    proof -
      have "(2::real) \<le> 2 ^ k" unfolding Suc by simp
      then show ?thesis using Suc.prems(1) by linarith
    qed
    have "2 ^ k' \<le> x / 2" "x / 2 < 2 ^ Suc k'" "k' \<le> n"
      using Suc.prems Suc by simp_all
    then have "exponent_above n (x / 2) = int k'" by (rule Suc.IH)
    then show ?thesis using ge Suc by simp
  qed
qed

lemma binade_eq: "2 ^ k \<le> x \<Longrightarrow> x < 2 ^ Suc k \<Longrightarrow> k \<le> 1023 \<Longrightarrow> binade x = int k"
proof -
  assume h: "2 ^ k \<le> x" "x < 2 ^ Suc k" "k \<le> 1023"
  have "(1::real) \<le> 2 ^ k" by simp
  then have "1 \<le> x" using h(1) by linarith
  then show ?thesis using exponent_above_eq [OF h] by (simp add: binade_def)
qed

lemma binade_below:
  "1 \<le> x * 2 ^ k \<Longrightarrow> x * 2 ^ k < 2 \<Longrightarrow> x < 1 \<Longrightarrow> k \<le> 1022 \<Longrightarrow> binade x = - int k"
  using exponent_below_eq [of x k 1022] by (simp add: binade_def)

lemma binade_le_13: "x < 16384 \<Longrightarrow> binade x \<le> 13"
proof (cases "1 \<le> x")
  case True
  assume "x < 16384"
  then have "x < 2 ^ Suc 13" by simp
  then have "exponent_above 1023 x \<le> int 13" by (rule exponent_above_le)
  then show ?thesis using True by (simp add: binade_def)
next
  case False
  have "exponent_below 1022 x \<le> 0" by (rule exponent_below_le)
  then show ?thesis using False by (simp add: binade_def)
qed

lemma double_ulp_small:
  assumes "0 \<le> x" and "x < 16384"
  obtains j :: nat where "double_ulp x = 1 / (2 ^ 39 * 2 ^ j)"
proof -
  have b: "binade x \<le> 13" using assms(2) by (rule binade_le_13)
  define j where "j = nat (13 - binade x)"
  have "nat (- (binade x - 52)) = 39 + j" using b by (simp add: j_def)
  then have "double_ulp x = 1 / 2 ^ (39 + j)"
    using b assms(1) by (simp add: double_ulp_def pow2_def)
  then have "double_ulp x = 1 / (2 ^ 39 * 2 ^ j)" by (simp add: power_add)
  then show ?thesis by (rule that)
qed

lemma double_round_le:
  assumes "0 \<le> x" and "x < 16384" and "x \<le> d" and "d * 2 ^ 39 = of_int k"
  shows "double_round x \<le> d"
proof -
  obtain j :: nat where u: "double_ulp x = 1 / (2 ^ 39 * 2 ^ j)"
    using assms(1,2) by (rule double_ulp_small)
  have dk: "d * (2 ^ 39 * 2 ^ j) = of_int (k * 2 ^ j)"
    using assms(4) by (simp add: mult.assoc [symmetric])
  have "x * (2 ^ 39 * 2 ^ j) \<le> d * (2 ^ 39 * 2 ^ j)"
    using assms(3) by (simp add: mult_right_mono)
  then have "x * (2 ^ 39 * 2 ^ j) \<le> of_int (k * 2 ^ j)" unfolding dk .
  then have "roundTiesToEven (x * (2 ^ 39 * 2 ^ j)) \<le> k * 2 ^ j" by (rule roundTiesToEven_le)
  then have "real_of_int (roundTiesToEven (x * (2 ^ 39 * 2 ^ j))) \<le> of_int (k * 2 ^ j)"
    by (simp only: of_int_le_iff)
  then have "real_of_int (roundTiesToEven (x * (2 ^ 39 * 2 ^ j))) \<le> d * (2 ^ 39 * 2 ^ j)"
    unfolding dk .
  then have "real_of_int (roundTiesToEven (x * (2 ^ 39 * 2 ^ j))) / (2 ^ 39 * 2 ^ j) \<le> d"
    by (simp add: divide_le_eq)
  then show ?thesis by (simp add: double_round_def u)
qed

lemma double_round_ge:
  assumes "0 \<le> x" and "x < 16384" and "d \<le> x" and "d * 2 ^ 39 = of_int k"
  shows "d \<le> double_round x"
proof -
  obtain j :: nat where u: "double_ulp x = 1 / (2 ^ 39 * 2 ^ j)"
    using assms(1,2) by (rule double_ulp_small)
  have dk: "d * (2 ^ 39 * 2 ^ j) = of_int (k * 2 ^ j)"
    using assms(4) by (simp add: mult.assoc [symmetric])
  have "d * (2 ^ 39 * 2 ^ j) \<le> x * (2 ^ 39 * 2 ^ j)"
    using assms(3) by (simp add: mult_right_mono)
  then have "of_int (k * 2 ^ j) \<le> x * (2 ^ 39 * 2 ^ j)" unfolding dk .
  then have "k * 2 ^ j \<le> roundTiesToEven (x * (2 ^ 39 * 2 ^ j))" by (rule roundTiesToEven_ge)
  then have "of_int (k * 2 ^ j) \<le> real_of_int (roundTiesToEven (x * (2 ^ 39 * 2 ^ j)))"
    by (simp only: of_int_le_iff)
  then have "d * (2 ^ 39 * 2 ^ j) \<le> real_of_int (roundTiesToEven (x * (2 ^ 39 * 2 ^ j)))"
    unfolding dk .
  then have "d \<le> real_of_int (roundTiesToEven (x * (2 ^ 39 * 2 ^ j))) / (2 ^ 39 * 2 ^ j)"
    by (simp add: le_divide_eq)
  then show ?thesis by (simp add: double_round_def u)
qed

lemma double_round_exact:
  assumes "0 \<le> x" and "x < 16384" and "x * 2 ^ 39 = of_int k"
  shows "double_round x = x"
  using double_round_le [OF assms(1,2) order_refl assms(3)]
        double_round_ge [OF assms(1,2) order_refl assms(3)]
  by simp

lemma double_round_between:
  assumes "a \<le> y" and "y \<le> b" and "0 \<le> a" and "b < 16384"
      and "a * 2 ^ 39 = of_int ka" and "b * 2 ^ 39 = of_int kb"
  shows "a \<le> double_round y \<and> double_round y \<le> b"
proof -
  have y: "0 \<le> y" "y < 16384" using assms by simp_all
  show ?thesis
    using double_round_ge [OF y assms(1,5)] double_round_le [OF y assms(2,6)] by simp
qed

lemma is_double_below_one:
  assumes "is_double r" and "r < 1"
  shows "r \<le> 1 - 1 / 2 ^ 53"
proof (cases "1 / 2 \<le> r")
  case False
  then show ?thesis by simp
next
  case True
  have "binade r = - int 1"
    using True assms(2) by (intro binade_below) simp_all
  then have u: "double_ulp r = 1 / 2 ^ 53"
    using True by (simp add: double_ulp_def pow2_def)
  define k where "k = roundTiesToEven (r * 2 ^ 53)"
  have r: "r = of_int k / 2 ^ 53"
    using assms(1) by (simp add: is_double_def double_round_def u k_def)
  have "real_of_int k < real_of_int (2 ^ 53)" using assms(2) r by (simp add: divide_less_eq)
  then have "k < 2 ^ 53" by (simp only: of_int_less_iff)
  then have "k \<le> 2 ^ 53 - 1" by simp
  then have "real_of_int k \<le> real_of_int (2 ^ 53 - 1)" by (simp only: of_int_le_iff)
  then have "real_of_int k \<le> 2 ^ 53 - 1" by simp
  then have "real_of_int k / 2 ^ 53 \<le> (2 ^ 53 - 1) / 2 ^ 53" by (simp add: divide_right_mono)
  then show ?thesis unfolding r by (simp add: diff_divide_distrib)
qed

lemma product_bounds:
  assumes "0 \<le> x" and "x \<le> 9000 - 9000 / 2 ^ 53"
  shows "0 \<le> double_round x \<and> double_round x \<le> 9000 - 1 / 2 ^ 39"
proof
  have lt: "x < 16384" using assms(2) by simp
  show "0 \<le> double_round x"
    using double_round_ge [OF assms(1) lt assms(1), of 0] by simp
  show "double_round x \<le> 9000 - 1 / 2 ^ 39"
  proof (cases "x \<le> 9000 - 1 / 2 ^ 39")
    case True
    have "(9000 - 1 / 2 ^ 39) * 2 ^ 39 = real_of_int (9000 * 2 ^ 39 - 1)" by simp
    then show ?thesis using double_round_le [OF assms(1) lt True] by blast
  next
    case False
    then have lo: "9000 - 1 / 2 ^ 39 < x" by simp
    have "binade x = int 13"
      using lo assms(2) by (intro binade_eq) simp_all
    then have u: "double_ulp x = 1 / 2 ^ 39"
      using assms(1) by (simp add: double_ulp_def pow2_def)
    define y where "y = x * 2 ^ 39"
    have y1: "real_of_int (9000 * 2 ^ 39 - 1) \<le> y"
      using lo by (simp add: y_def field_simps)
    have y2: "y - real_of_int (9000 * 2 ^ 39 - 1) < 1 / 2"
      using assms(2) by (simp add: y_def field_simps)
    have fl: "\<lfloor>y\<rfloor> = 9000 * 2 ^ 39 - 1"
      using y1 y2 by (intro floor_unique) simp_all
    have "roundTiesToEven y = 9000 * 2 ^ 39 - 1"
      using y2 by (simp add: roundTiesToEven_def Let_def fl)
    then have "double_round x = real_of_int (9000 * 2 ^ 39 - 1) / 2 ^ 39"
      by (simp add: double_round_def u y_def)
    then show ?thesis by simp
  qed
qed

lemma generatePin_number_half: "generatePin_number (1 / 2) = 5500"
proof -
  have a: "double_round 4500 = 4500"
    by (rule double_round_exact [where k = "4500 * 2 ^ 39"]) simp_all
  have b: "double_round 5500 = 5500"
    by (rule double_round_exact [where k = "5500 * 2 ^ 39"]) simp_all
  show ?thesis by (simp add: generatePin_number_def a b)
qed

lemma is_double_half: "is_double (1 / 2)"
proof -
  have "double_round (1 / 2) = 1 / 2"
    by (rule double_round_exact [where k = "2 ^ 38"]) simp_all
  then show ?thesis by (simp add: is_double_def)
qed

section \<open>Evaluation of the concrete instance\<close>

lemma natToString_small: "n < 10 \<Longrightarrow> natToString n = [digitChar n]"
  by (simp add: natToString.simps)

lemma natToString_large: "10 \<le> n \<Longrightarrow> natToString n = natToString (n div 10) @ [digitChar (n mod 10)]"
  by (subst natToString.simps) simp

lemma ex_pin: "generatePin (1 / 2) = ''5500''"
  by (simp add: generatePin_def generatePin_number_half toString_def natToString_small
        natToString_large digitChar_def)

lemma ex_toString: "toString 1000 = ''1000''"
  by (simp add: toString_def natToString_small natToString_large digitChar_def)

lemma ex_port: "findAvailablePort (\<lambda>p. p \<noteq> 3000) 3000 = Inr 3001"
  by (simp add: findAvailablePort_def findAvailablePort_loop.simps maxAttempts_def)

lemma ex_new_eq:
  "ex_new = \<lparr> this_server = None, this_io = None, replaced_io = [], this_port = 0,
       this_pin = ''5500'',
       this_sessionId = ''session_1000_k3j9x2a'', this_authenticatedSockets = [],
       this_onMessageCallback = None, this_getStateCallback = None,
       context_globalState = [ex_other], provider = [] \<rparr>"
  by (simp add: ex_new_def constructor_def ex_pin ex_toString)

lemma ex_start:
  "start ex_new (Some 3000) ex_env =
     (ex_new\<lparr>this_port := 3001, this_server := Some 3001, this_io := Some [],
            context_globalState := [ex_other, ex_record]\<rparr>, Inr 3001)"
  by (simp add: start_def ex_env_def ex_port ex_new_eq setupSocketIO_def registerSession_def Let_def
        ex_record_def ex_other_def)

lemma ex_bare_eq:
  "ex_bare = \<lparr> this_server = Some 3001, this_io = Some [''A'', ''B''], replaced_io = [],
       this_port = 3001,
       this_pin = ''5500'', this_sessionId = ''session_1000_k3j9x2a'',
       this_authenticatedSockets = [], this_onMessageCallback = None,
       this_getStateCallback = None, context_globalState = [ex_other, ex_record], provider = [] \<rparr>"
  by (simp add: ex_bare_def ex_start connected_def open_sockets_def) (simp add: ex_new_eq)

lemma ex_wired_eq:
  "ex_wired = \<lparr> this_server = Some 3001, this_io = Some [''A'', ''B''], replaced_io = [],
       this_port = 3001,
       this_pin = ''5500'', this_sessionId = ''session_1000_k3j9x2a'',
       this_authenticatedSockets = [], this_onMessageCallback = Some ex_onMessage,
       this_getStateCallback = Some ex_getState, context_globalState = [ex_other, ex_record],
       provider = [] \<rparr>"
  by (simp add: ex_wired_def start_def ex_env_def ex_port ex_new_eq setupSocketIO_def
        registerSession_def Let_def ex_record_def ex_other_def connected_def open_sockets_def
        onGetState_def onMessage_def)

lemma ex_port2: "findAvailablePort (\<lambda>p. p \<noteq> 3000 \<and> p \<noteq> 3001) 3000 = Inr 3002"
  by (simp add: findAvailablePort_def findAvailablePort_loop.simps maxAttempts_def)

lemma ex_restarted_eq:
  "ex_restarted = \<lparr> this_server = Some 3002, this_io = Some [], replaced_io = [[''A'', ''B'']],
       this_port = 3002, this_pin = ''5500'', this_sessionId = ''session_1000_k3j9x2a'',
       this_authenticatedSockets = [''A''], this_onMessageCallback = Some ex_onMessage,
       this_getStateCallback = Some ex_getState,
       context_globalState = [ex_other, ex_record, ex_record2], provider = [] \<rparr>"
  by (simp add: ex_restarted_def ex_wired_A_def ex_wired_eq connected_def open_sockets_def
        socket_on_authenticate_def set_add_def start_def ex_env2_def ex_port2 setupSocketIO_def
        registerSession_def Let_def ex_record_def ex_record2_def ex_other_def)

lemma ex_bare_A_eq: "ex_bare_A = ex_bare\<lparr>this_authenticatedSockets := [''A'']\<rparr>"
  by (simp add: ex_bare_A_def ex_bare_eq connected_def open_sockets_def socket_on_authenticate_def set_add_def)

lemma ex_wired_A_eq: "ex_wired_A = ex_wired\<lparr>this_authenticatedSockets := [''A'']\<rparr>"
  by (simp add: ex_wired_A_def ex_wired_eq connected_def open_sockets_def socket_on_authenticate_def set_add_def)



section \<open>The port allocator (C9)\<close>

lemma findAvailablePort_loop_Inr:
  "(findAvailablePort_loop c i p = Inr r) =
     (p \<le> r \<and> r < p + int (maxAttempts - i) \<and> c r \<and> (\<forall>q. p \<le> q \<and> q < r \<longrightarrow> \<not> c q))"
proof (induction c i p rule: findAvailablePort_loop.induct)
  case (1 c i p)
  show ?case
  proof (cases "i < maxAttempts")
    case False
    then show ?thesis
      by (subst findAvailablePort_loop.simps) auto
  next
    case lt: True
    show ?thesis
    proof (cases "c p")
      case True
      have "findAvailablePort_loop c i p = Inr p"
        using lt True by (subst findAvailablePort_loop.simps) simp
      moreover have "(p = r) = (p \<le> r \<and> r < p + int (maxAttempts - i) \<and> c r \<and> (\<forall>q. p \<le> q \<and> q < r \<longrightarrow> \<not> c q))"
        using lt True by auto
      ultimately show ?thesis by auto
    next
      case False
      have eq: "findAvailablePort_loop c i p = findAvailablePort_loop c (i + 1) (p + 1)"
        using lt False by (subst findAvailablePort_loop.simps) simp
      have a: "p + 1 + int (maxAttempts - (i + 1)) = p + int (maxAttempts - i)"
        using lt by simp
      have b: "(\<forall>q. p \<le> q \<and> q < r \<longrightarrow> \<not> c q) = (\<forall>q. p + 1 \<le> q \<and> q < r \<longrightarrow> \<not> c q)"
      proof
        assume h: "\<forall>q. p + 1 \<le> q \<and> q < r \<longrightarrow> \<not> c q"
        show "\<forall>q. p \<le> q \<and> q < r \<longrightarrow> \<not> c q"
        proof (intro allI impI)
          fix q assume "p \<le> q \<and> q < r"
          then consider "q = p" | "p + 1 \<le> q \<and> q < r" by linarith
          then show "\<not> c q" using False h by cases auto
        qed
      qed auto
      have d: "(p + 1 \<le> r \<and> c r) = (p \<le> r \<and> c r)"
      proof -
        have "p \<noteq> r" if "c r" using that False by auto
        then show ?thesis by auto
      qed
      show ?thesis
        unfolding eq "1.IH" [OF lt False] a b using d by blast
    qed
  qed
qed

lemma findAvailablePort_loop_Inl:
  "(findAvailablePort_loop c i p = Inl e) =
     (e = CouldNotFindPort maxAttempts \<and> (\<forall>q. p \<le> q \<and> q < p + int (maxAttempts - i) \<longrightarrow> \<not> c q))"
proof (induction c i p rule: findAvailablePort_loop.induct)
  case (1 c i p)
  show ?case
  proof (cases "i < maxAttempts")
    case False
    then show ?thesis
      by (subst findAvailablePort_loop.simps) auto
  next
    case lt: True
    show ?thesis
    proof (cases "c p")
      case True
      have "findAvailablePort_loop c i p = Inr p"
        using lt True by (subst findAvailablePort_loop.simps) simp
      moreover have "\<not> (\<forall>q. p \<le> q \<and> q < p + int (maxAttempts - i) \<longrightarrow> \<not> c q)"
        using lt True by force
      ultimately show ?thesis by simp
    next
      case False
      have eq: "findAvailablePort_loop c i p = findAvailablePort_loop c (i + 1) (p + 1)"
        using lt False by (subst findAvailablePort_loop.simps) simp
      have a: "p + 1 + int (maxAttempts - (i + 1)) = p + int (maxAttempts - i)"
        using lt by simp
      have b: "(\<forall>q. p \<le> q \<and> q < p + int (maxAttempts - i) \<longrightarrow> \<not> c q) =
               (\<forall>q. p + 1 \<le> q \<and> q < p + int (maxAttempts - i) \<longrightarrow> \<not> c q)"
      proof
        assume h: "\<forall>q. p + 1 \<le> q \<and> q < p + int (maxAttempts - i) \<longrightarrow> \<not> c q"
        show "\<forall>q. p \<le> q \<and> q < p + int (maxAttempts - i) \<longrightarrow> \<not> c q"
        proof (intro allI impI)
          fix q assume "p \<le> q \<and> q < p + int (maxAttempts - i)"
          then consider "q = p" | "p + 1 \<le> q \<and> q < p + int (maxAttempts - i)" by linarith
          then show "\<not> c q" using False h by cases auto
        qed
      qed auto
      show ?thesis
        unfolding eq "1.IH" [OF lt False] a b ..
    qed
  qed
qed

text \<open>
  Claim C9. Given a start port, \<^verbatim>\<open>_findAvailablePort\<close> returns port \<open>p\<close> exactly when \<open>p\<close> is the
  first port at or after the start port that can be bound, scanning forward one port at a
  time, and \<open>p\<close> is among the first 100 ports scanned; it fails, with the error that names 100
  attempts, exactly when each of the 100 ports from the start port on cannot be bound.
\<close>

theorem findAvailablePort_first_bindable:
  "((findAvailablePort canBind startPort = Inr p) =
      (startPort \<le> p \<and> p < startPort + 100 \<and> canBind p \<and>
       (\<forall>q. startPort \<le> q \<and> q < p \<longrightarrow> \<not> canBind q))) \<and>
   ((findAvailablePort canBind startPort = Inl e) =
      (e = CouldNotFindPort 100 \<and>
       (\<forall>q. startPort \<le> q \<and> q < startPort + 100 \<longrightarrow> \<not> canBind q)))"
  unfolding findAvailablePort_def findAvailablePort_loop_Inr findAvailablePort_loop_Inl
  by (simp add: maxAttempts_def)

theorem findAvailablePort_first_bindable_witness:
  "findAvailablePort (\<lambda>q. q = 3002) 3000 = Inr 3002 \<and>
   findAvailablePort (\<lambda>q. False) 3000 = Inl (CouldNotFindPort 100)"
  using findAvailablePort_first_bindable [of "\<lambda>q. q = 3002" 3000 3002 "CouldNotFindPort 100"]
        findAvailablePort_first_bindable [of "\<lambda>q. False" 3000 0 "CouldNotFindPort 100"]
  by simp


section \<open>The session registry (C3)\<close>

lemma registerSession_distinct_ports:
  "distinct (map port (context_globalState this)) \<Longrightarrow>
   distinct (map port (context_globalState (registerSession this name t)))"
  by (auto simp: registerSession_def Let_def distinct_map_filter)

lemma unregisterSession_distinct_ports:
  "distinct (map port (context_globalState this)) \<Longrightarrow>
   distinct (map port (context_globalState (unregisterSession this)))"
  by (simp add: unregisterSession_def Let_def distinct_map_filter)

lemma apply_registry_op_distinct_ports:
  "distinct (map port sessions) \<Longrightarrow> distinct (map port (apply_registry_op ro sessions))"
  by (cases ro) (simp_all add: registerSession_distinct_ports unregisterSession_distinct_ports)

lemma fold_registry_ops_distinct_ports:
  "distinct (map port sessions) \<Longrightarrow> distinct (map port (fold apply_registry_op ops sessions))"
  by (induction ops arbitrary: sessions) (simp_all add: apply_registry_op_distinct_ports)

text \<open>
  Claim C3. After every finite sequence of registrations and unregistrations on the session
  registry, starting from the empty registry, the list of session records holds no two
  records with the same port.
\<close>

theorem registry_ports_unique:
  "distinct (map port (fold apply_registry_op ops []))"
proof (induction ops rule: rev_induct)
  case Nil
  show ?case by simp
next
  case (snoc ro ops)
  have "fold apply_registry_op (ops @ [ro]) [] = apply_registry_op ro (fold apply_registry_op ops [])"
    by simp
  then show ?case
    using snoc.IH by (simp add: apply_registry_op_distinct_ports)
qed

section \<open>The generated PIN (C7)\<close>

lemma digit_cases:
  assumes "d < 10"
  shows "d = 0 \<or> d = 1 \<or> d = 2 \<or> d = 3 \<or> d = 4 \<or> d = 5 \<or> d = 6 \<or> d = 7 \<or> d = 8 \<or> d = (9::nat)"
  using assms by arith

lemma digitChar_is_digit: "d < 10 \<Longrightarrow> digitChar d \<in> set ''0123456789''"
  using digit_cases [of d] by (auto simp: digitChar_def)

lemma digitChar_zero: "d < 10 \<Longrightarrow> (digitChar d = CHR ''0'') = (d = 0)"
  using digit_cases [of d] by (auto simp: digitChar_def)

lemma natToString_four:
  assumes "1000 \<le> n" and "n \<le> 9999"
  shows "natToString n =
    [digitChar (n div 1000), digitChar (n div 100 mod 10), digitChar (n div 10 mod 10), digitChar (n mod 10)]"
proof -
  have a: "natToString n = natToString (n div 10) @ [digitChar (n mod 10)]"
    using assms by (intro natToString_large) simp
  have e: "n div 10 div 10 = n div 100" "n div 100 div 10 = n div 1000"
    by (simp_all add: div_mult2_eq [symmetric])
  have b: "natToString (n div 10) = natToString (n div 100) @ [digitChar (n div 10 mod 10)]"
    using assms natToString_large [of "n div 10"] by (simp add: e)
  have c: "natToString (n div 100) = natToString (n div 1000) @ [digitChar (n div 100 mod 10)]"
    using assms natToString_large [of "n div 100"] by (simp add: e)
  have d: "natToString (n div 1000) = [digitChar (n div 1000)]"
    using assms by (intro natToString_small) simp
  show ?thesis
    by (simp add: a b c d)
qed

lemma toString_four:
  assumes "1000 \<le> n" and "n \<le> 9999"
  shows "length (toString n) = 4 \<and> set (toString n) \<subseteq> set ''0123456789'' \<and>
         hd (toString n) \<noteq> CHR ''0''"
proof -
  let ?m = "nat n"
  have m: "1000 \<le> ?m" "?m \<le> 9999" using assms by simp_all
  have ts: "toString n = natToString ?m" using assms by (simp add: toString_def)
  note four = natToString_four [OF m]
  have d1: "?m div 1000 < 10" "?m div 1000 \<noteq> 0" using m by simp_all
  have d: "?m div 100 mod 10 < 10" "?m div 10 mod 10 < 10" "?m mod 10 < 10" by simp_all
  have "hd (natToString ?m) \<noteq> CHR ''0''"
    unfolding four using digitChar_zero [OF d1(1)] d1(2) by simp
  moreover have "set (natToString ?m) \<subseteq> set ''0123456789''"
    unfolding four using digitChar_is_digit [OF d1(1)] d [THEN digitChar_is_digit] by simp
  moreover have "length (natToString ?m) = 4"
    unfolding four by simp
  ultimately show ?thesis unfolding ts by simp
qed

lemma generatePin_number_range:
  assumes "is_double random" and "0 \<le> random" and "random < 1"
  shows "1000 \<le> generatePin_number random \<and> generatePin_number random \<le> 9999"
proof -
  define p where "p = double_round (random * 9000)"
  define s where "s = double_round (1000 + p)"
  have r: "random \<le> 1 - 1 / 2 ^ 53" using assms(1,3) by (rule is_double_below_one)
  have x: "0 \<le> random * 9000" "random * 9000 \<le> 9000 - 9000 / 2 ^ 53"
    using assms(2) r by simp_all
  have p: "0 \<le> p" "p \<le> 9000 - 1 / 2 ^ 39"
    using product_bounds [OF x] by (simp_all add: p_def)
  have "1000 \<le> s \<and> s \<le> 10000 - 1 / 2 ^ 39"
    unfolding s_def
  proof (rule double_round_between)
    show "1000 \<le> 1000 + p" "1000 + p \<le> 10000 - 1 / 2 ^ 39" using p by simp_all
    show "(1000::real) * 2 ^ 39 = of_int (1000 * 2 ^ 39)" by simp
    show "(10000 - 1 / 2 ^ 39) * 2 ^ 39 = real_of_int (10000 * 2 ^ 39 - 1)" by simp
  qed simp_all
  then have "1000 \<le> s" "s < 10000" by simp_all
  then have "1000 \<le> \<lfloor>s\<rfloor>" "\<lfloor>s\<rfloor> < 10000"
    by (simp_all add: le_floor_iff floor_less_iff)
  then show ?thesis by (simp add: generatePin_number_def s_def p_def)
qed

lemma generatePin_number_interval:
  assumes "1000 \<le> n" and "n \<le> 9999"
      and "(real_of_int n - 1000) / 9000 \<le> random"
      and "random \<le> (real_of_int n - 999) / 9000 - 1 / 2 ^ 52"
  shows "generatePin_number random = n"
proof -
  define p where "p = double_round (random * 9000)"
  define s where "s = double_round (1000 + p)"
  have n: "1000 \<le> real_of_int n" "real_of_int n \<le> 9999" using assms(1,2) by simp_all
  have x1: "real_of_int n - 1000 \<le> random * 9000" using assms(3) by (simp add: field_simps)
  have "random * 9000 \<le> real_of_int n - 999 - 9000 / 2 ^ 52"
    using assms(4) by (simp add: field_simps)
  then have x2: "random * 9000 \<le> real_of_int n - 999 - 1 / 2 ^ 39" by simp
  have "real_of_int n - 1000 \<le> p \<and> p \<le> real_of_int n - 999 - 1 / 2 ^ 39"
    unfolding p_def
  proof (rule double_round_between)
    show "(real_of_int n - 1000) * 2 ^ 39 = of_int ((n - 1000) * 2 ^ 39)" by simp
    show "(real_of_int n - 999 - 1 / 2 ^ 39) * 2 ^ 39 = of_int ((n - 999) * 2 ^ 39 - 1)"
      by (simp add: algebra_simps)
  qed (use x1 x2 n in simp_all)
  then have y: "real_of_int n \<le> 1000 + p" "1000 + p \<le> real_of_int n + 1 - 1 / 2 ^ 39"
    by simp_all
  have "real_of_int n \<le> s \<and> s \<le> real_of_int n + 1 - 1 / 2 ^ 39"
    unfolding s_def
  proof (rule double_round_between)
    show "real_of_int n * 2 ^ 39 = of_int (n * 2 ^ 39)" by simp
    show "(real_of_int n + 1 - 1 / 2 ^ 39) * 2 ^ 39 = of_int ((n + 1) * 2 ^ 39 - 1)"
      by (simp add: algebra_simps)
  qed (use y n in simp_all)
  then have "real_of_int n \<le> s" "s < real_of_int n + 1" by simp_all
  then have "\<lfloor>s\<rfloor> = n" by (intro floor_unique) simp_all
  then show ?thesis by (simp add: generatePin_number_def s_def p_def)
qed

lemma generatePin_number_onto:
  assumes "1000 \<le> n" and "n \<le> 9999"
  shows "\<exists>r. is_double r \<and> 0 \<le> r \<and> r < 1 \<and> generatePin_number r = n"
proof -
  define c where "c = (real_of_int n - 1000) / 9000"
  define r where "r = real_of_int \<lceil>c * 2 ^ 39\<rceil> / 2 ^ 39"
  have n: "1000 \<le> real_of_int n" "real_of_int n \<le> 9999" using assms by simp_all
  have c0: "0 \<le> c" using n by (simp add: c_def)
  have lo: "c \<le> r"
  proof -
    have "c * 2 ^ 39 \<le> real_of_int \<lceil>c * 2 ^ 39\<rceil>" by (rule le_of_int_ceiling)
    then show ?thesis by (simp add: r_def le_divide_eq)
  qed
  have hi: "r < c + 1 / 2 ^ 39"
  proof -
    have "real_of_int \<lceil>c * 2 ^ 39\<rceil> < c * 2 ^ 39 + 1"
      using ceiling_correct [of "c * 2 ^ 39"] by linarith
    then show ?thesis by (simp add: r_def divide_less_eq algebra_simps)
  qed
  have up: "c + 1 / 2 ^ 39 \<le> (real_of_int n - 999) / 9000 - 1 / 2 ^ 52"
    by (simp add: c_def field_simps)
  have r0: "0 \<le> r" using c0 lo by simp
  have r1: "r < 1"
  proof -
    have a: "(real_of_int n - 999) / 9000 \<le> 1" using n by simp
    have b: "r < (real_of_int n - 999) / 9000 - 1 / 2 ^ 52" using hi up by (rule less_le_trans)
    have c: "(0::real) \<le> 1 / 2 ^ 52" by simp
    show ?thesis using a b c by linarith
  qed
  have "r * 2 ^ 39 = real_of_int \<lceil>c * 2 ^ 39\<rceil>" by (simp add: r_def)
  then have "double_round r = r"
    using r0 r1 by (intro double_round_exact) simp_all
  then have d: "is_double r" using r0 r1 by (simp add: is_double_def)
  have "generatePin_number r = n"
    using assms
  proof (rule generatePin_number_interval)
    show "(real_of_int n - 1000) / 9000 \<le> r" using lo by (simp add: c_def)
    show "r \<le> (real_of_int n - 999) / 9000 - 1 / 2 ^ 52" using hi up by simp
  qed
  then show ?thesis using d r0 r1 by blast
qed

text \<open>
  The rounding is part of the result: at this double the exact sum is below 1025 and the
  sum of doubles is 1025.
\<close>

lemma generatePin_number_rounds_up:
  "is_double (12509998964918 / 2 ^ 52) \<and>
   \<lfloor>1000 + (12509998964918 / 2 ^ 52) * (9000::real)\<rfloor> = 1024 \<and>
   generatePin_number (12509998964918 / 2 ^ 52) = 1025"
proof -
  define r :: real where "r = 12509998964918 / 2 ^ 52"
  define x where "x = r * 9000"
  define y where "y = 1000 + x"
  have "binade r = - int 9"
    by (rule binade_below) (simp_all add: r_def)
  moreover have "0 \<le> r" by (simp add: r_def)
  ultimately have ur: "double_ulp r = 1 / 2 ^ 61"
    by (simp add: double_ulp_def pow2_def)
  have "r / (1 / 2 ^ 61) = of_int (12509998964918 * 2 ^ 9)"
    by (simp add: r_def)
  then have "double_round r = of_int (12509998964918 * 2 ^ 9) * (1 / 2 ^ 61)"
    unfolding double_round_def ur by (simp only: roundTiesToEven_of_int)
  then have "double_round r = r" by (simp add: r_def)
  then have d: "is_double r" by (simp add: is_double_def) (simp add: r_def)
  have "binade x = int 4"
    by (rule binade_eq) (simp_all add: x_def r_def)
  moreover have "0 \<le> x" by (simp add: x_def r_def)
  ultimately have ux: "double_ulp x = 1 / 2 ^ 48"
    by (simp add: double_ulp_def pow2_def)
  have "x / (1 / 2 ^ 48) = of_int (25 * 2 ^ 48 - 25)"
    by (simp add: x_def r_def)
  then have "double_round x = of_int (25 * 2 ^ 48 - 25) * (1 / 2 ^ 48)"
    unfolding double_round_def ux by (simp only: roundTiesToEven_of_int)
  then have p: "double_round x = x" by (simp add: x_def r_def)
  have "binade y = int 10"
    by (rule binade_eq) (simp_all add: y_def x_def r_def)
  moreover have "0 \<le> y" by (simp add: y_def x_def r_def)
  ultimately have uy: "double_ulp y = 1 / 2 ^ 42"
    by (simp add: double_ulp_def pow2_def)
  have "roundTiesToEven (y / (1 / 2 ^ 42)) = 1025 * 2 ^ 42"
    by (rule roundTiesToEven_up) (simp_all add: y_def x_def r_def)
  then have s: "double_round y = 1025"
    unfolding double_round_def uy by simp
  have g: "generatePin_number r = 1025"
    unfolding generatePin_number_def x_def [symmetric] p y_def [symmetric] s by simp
  have e: "\<lfloor>1000 + r * 9000\<rfloor> = 1024"
    by (intro floor_unique) (simp_all add: r_def)
  show ?thesis using d e g unfolding r_def by blast
qed

text \<open>
  Claim C7, as amended. For a double \<^verbatim>\<open>Math.random()\<close> in \<open>[0, 1)\<close> the generated secret is the
  decimal string of an integer between 1000 and 9999: exactly 4 decimal digits, the first of
  them not 0. The secret is the string of \<open>n\<close> for every random value from \<open>(n - 1000) / 9000\<close>
  up to \<open>(n - 999) / 9000 - 2 ^ - 52\<close>, and every string from 1000 to 9999 is the output for
  some double in \<open>[0, 1)\<close>.
\<close>

theorem generatePin_four_digits:
  "(is_double random \<and> 0 \<le> random \<and> random < 1 \<longrightarrow>
      1000 \<le> generatePin_number random \<and> generatePin_number random \<le> 9999 \<and>
      length (generatePin random) = 4 \<and>
      set (generatePin random) \<subseteq> set ''0123456789'' \<and>
      hd (generatePin random) \<noteq> CHR ''0'') \<and>
   (1000 \<le> n \<and> n \<le> 9999 \<and>
    (real_of_int n - 1000) / 9000 \<le> random \<and>
    random \<le> (real_of_int n - 999) / 9000 - 1 / 2 ^ 52 \<longrightarrow>
      generatePin random = toString n) \<and>
   (1000 \<le> n \<and> n \<le> 9999 \<longrightarrow>
      (\<exists>r. is_double r \<and> 0 \<le> r \<and> r < 1 \<and> generatePin r = toString n))"
proof (intro conjI impI)
  assume h: "is_double random \<and> 0 \<le> random \<and> random < 1"
  then have r: "1000 \<le> generatePin_number random \<and> generatePin_number random \<le> 9999"
    using generatePin_number_range [of random] by blast
  then show "1000 \<le> generatePin_number random" "generatePin_number random \<le> 9999"
    by simp_all
  have four: "length (generatePin random) = 4 \<and>
              set (generatePin random) \<subseteq> set ''0123456789'' \<and>
              hd (generatePin random) \<noteq> CHR ''0''"
    unfolding generatePin_def using r toString_four [of "generatePin_number random"] by blast
  show "length (generatePin random) = 4" using four by blast
  show "set (generatePin random) \<subseteq> set ''0123456789''" using four by blast
  show "hd (generatePin random) \<noteq> CHR ''0''" using four by blast
next
  assume "1000 \<le> n \<and> n \<le> 9999 \<and>
    (real_of_int n - 1000) / 9000 \<le> random \<and>
    random \<le> (real_of_int n - 999) / 9000 - 1 / 2 ^ 52"
  then have "generatePin_number random = n"
    using generatePin_number_interval [of n random] by blast
  then show "generatePin random = toString n" by (simp add: generatePin_def)
next
  assume "1000 \<le> n \<and> n \<le> 9999"
  then obtain r where "is_double r \<and> 0 \<le> r \<and> r < 1 \<and> generatePin_number r = n"
    using generatePin_number_onto [of n] by blast
  then show "\<exists>r. is_double r \<and> 0 \<le> r \<and> r < 1 \<and> generatePin r = toString n"
    unfolding generatePin_def by blast
qed

theorem generatePin_four_digits_witness:
  "is_double (1 / 2) \<and>
   length (generatePin (1 / 2)) = 4 \<and>
   hd (generatePin (1 / 2)) \<noteq> CHR ''0'' \<and>
   generatePin (1 / 2) = toString 5500 \<and>
   (\<exists>r. is_double r \<and> 0 \<le> r \<and> r < 1 \<and> generatePin r = toString 5500)"
proof -
  have h1: "is_double (1 / 2) \<and> (0::real) \<le> 1 / 2 \<and> (1 / 2 :: real) < 1"
    by (simp add: is_double_half)
  have h2: "(1000::int) \<le> 5500 \<and> (5500::int) \<le> 9999 \<and>
            (real_of_int 5500 - 1000) / 9000 \<le> 1 / 2 \<and>
            (1 / 2 :: real) \<le> (real_of_int 5500 - 999) / 9000 - 1 / 2 ^ 52"
    by simp
  have h3: "(1000::int) \<le> 5500 \<and> (5500::int) \<le> 9999"
    by simp
  note inst = generatePin_four_digits [of "1 / 2" 5500]
  from inst h1 have a: "length (generatePin (1 / 2)) = 4 \<and> hd (generatePin (1 / 2)) \<noteq> CHR ''0''"
    by blast
  from inst h2 have b: "generatePin (1 / 2) = toString 5500"
    by blast
  from inst h3 have c: "\<exists>r. is_double r \<and> 0 \<le> r \<and> r < 1 \<and> generatePin r = toString 5500"
    by blast
  show ?thesis using h1 a b c by blast
qed

text \<open>
  The claim as stated fails: no double \<^verbatim>\<open>Math.random()\<close> in \<open>[0, 1)\<close> gives the secret 0000.
\<close>

theorem generatePin_leading_zero_counterexample:
  "\<not> (\<exists>random. is_double random \<and> 0 \<le> random \<and> random < 1 \<and> generatePin random = ''0000'')"
proof
  assume "\<exists>random. is_double random \<and> 0 \<le> random \<and> random < 1 \<and> generatePin random = ''0000''"
  then obtain random where r: "is_double random" "0 \<le> random" "random < 1"
    and z: "generatePin random = ''0000''"
    by blast
  have "hd (generatePin random) \<noteq> CHR ''0''"
    using generatePin_number_range [OF r] toString_four [of "generatePin_number random"]
    unfolding generatePin_def by blast
  then show False unfolding z by simp
qed

section \<open>Authentication (C5)\<close>

lemma set_add_member: "x \<in> set (set_add x xs)"
  by (simp add: set_add_def)

lemma set_set_add: "set (set_add x xs) = insert x (set xs)"
  by (auto simp: set_add_def)

lemma set_set_delete: "set (set_delete x xs) = set xs - {x}"
  by (auto simp: set_delete_def)

lemma authenticate_match:
  "socket_on_authenticate this socket (this_pin this) =
     (this\<lparr>this_authenticatedSockets := set_add socket (this_authenticatedSockets this)\<rparr>,
      SocketEmit socket (Authenticated True None) #
        (case this_getStateCallback this of
           Some callback \<Rightarrow> [GetStateCalled, SocketEmit socket (InitialState (callback (provider this)))]
         | None \<Rightarrow> []))"
  by (simp add: socket_on_authenticate_def Let_def split: option.splits)

lemma authenticate_mismatch:
  "data_pin \<noteq> this_pin this \<Longrightarrow>
   socket_on_authenticate this socket data_pin =
     (this, [SocketEmit socket (Authenticated False (Some ''Invalid PIN''))])"
  by (simp add: socket_on_authenticate_def)

text \<open>
  Claim C5. The \<^verbatim>\<open>authenticate\<close> handler acknowledges success if and only if the candidate
  PIN equals the current secret, and then the socket is in the authenticated set. On a
  mismatch it emits \<^verbatim>\<open>authenticated {success: false, error: 'Invalid PIN'}\<close> to that socket and
  changes nothing: the authenticated set is as before, the socket is still connected, and a
  later \<^verbatim>\<open>authenticate\<close> with the right PIN on the same socket succeeds.
\<close>

theorem authenticate_validates_pin:
  "((SocketEmit socket (Authenticated True None)
       \<in> set (snd (socket_on_authenticate this socket data_pin))) = (data_pin = this_pin this)) \<and>
   (data_pin = this_pin this \<longrightarrow>
      socket \<in> set (this_authenticatedSockets (fst (socket_on_authenticate this socket data_pin)))) \<and>
   (data_pin \<noteq> this_pin this \<longrightarrow>
      socket_on_authenticate this socket data_pin =
        (this, [SocketEmit socket (Authenticated False (Some ''Invalid PIN''))])) \<and>
   (data_pin \<noteq> this_pin this \<and> connected this socket \<longrightarrow>
      step this (Authenticate socket data_pin) =
        (this, [SocketEmit socket (Authenticated False (Some ''Invalid PIN''))]) \<and>
      connected (fst (step this (Authenticate socket data_pin))) socket \<and>
      socket \<in> set (this_authenticatedSockets
                     (fst (run this [Authenticate socket data_pin,
                                     Authenticate socket (this_pin this)]))))"
proof -
  have a: "(SocketEmit socket (Authenticated True None)
       \<in> set (snd (socket_on_authenticate this socket data_pin))) = (data_pin = this_pin this)"
  proof (cases "data_pin = this_pin this")
    case True
    then show ?thesis by (simp add: authenticate_match)
  next
    case False
    then show ?thesis by (simp add: authenticate_mismatch)
  qed
  have b: "socket \<in> set (this_authenticatedSockets (fst (socket_on_authenticate this socket data_pin)))"
    if "data_pin = this_pin this"
    using that by (simp add: authenticate_match set_add_member)
  have c: "step this (Authenticate socket data_pin) =
        (this, [SocketEmit socket (Authenticated False (Some ''Invalid PIN''))]) \<and>
      connected (fst (step this (Authenticate socket data_pin))) socket \<and>
      socket \<in> set (this_authenticatedSockets
                     (fst (run this [Authenticate socket data_pin,
                                     Authenticate socket (this_pin this)])))"
    if "data_pin \<noteq> this_pin this" "connected this socket"
    using that by (simp add: authenticate_mismatch authenticate_match set_add_member)
  show ?thesis
    using a b c authenticate_mismatch [of data_pin this socket] by blast
qed

theorem authenticate_validates_pin_witness:
  "''1234'' \<noteq> this_pin ex_wired \<and> connected ex_wired ''A'' \<and>
   socket_on_authenticate ex_wired ''A'' ''1234'' =
     (ex_wired, [SocketEmit ''A'' (Authenticated False (Some ''Invalid PIN''))]) \<and>
   connected (fst (step ex_wired (Authenticate ''A'' ''1234''))) ''A'' \<and>
   ''A'' \<in> set (this_authenticatedSockets
                  (fst (run ex_wired [Authenticate ''A'' ''1234'',
                                      Authenticate ''A'' (this_pin ex_wired)])))"
proof -
  have h: "''1234'' \<noteq> this_pin ex_wired \<and> connected ex_wired ''A''"
    by (simp add: ex_wired_eq connected_def open_sockets_def)
  show ?thesis
    using h authenticate_validates_pin [of "''A''" ex_wired "''1234''"] by blast
qed

section \<open>Inbound relay (C4)\<close>

lemma message_unauthenticated:
  "socket \<notin> set (this_authenticatedSockets this) \<Longrightarrow>
   socket_on_message this socket message = (this, [SocketEmit socket (Error ''Not authenticated'')])"
  by (simp add: socket_on_message_def)

lemma message_forwarded:
  "socket \<in> set (this_authenticatedSockets this) \<Longrightarrow> this_onMessageCallback this = Some callback \<Longrightarrow>
   socket_on_message this socket message =
     (this\<lparr>provider := fst (callback (provider this) message)\<rparr>,
      OnMessageCalled message #
        map (\<lambda>response. SocketEmit socket (Message response)) (snd (callback (provider this) message)))"
  by (simp add: socket_on_message_def split_beta)

lemma message_dropped:
  "socket \<in> set (this_authenticatedSockets this) \<Longrightarrow> this_onMessageCallback this = None \<Longrightarrow>
   socket_on_message this socket message = (this, [])"
  by (simp add: socket_on_message_def)

text \<open>
  Claim C4, as amended. A \<^verbatim>\<open>message\<close> from a socket that is not in the authenticated set gets
  the \<^verbatim>\<open>error\<close> event \<^verbatim>\<open>Not authenticated\<close> on that socket only, and the message callback is
  not called. A \<^verbatim>\<open>message\<close> from an authenticated socket is passed unchanged to the message
  callback when one has been registered with \<^verbatim>\<open>onMessage\<close> (and what the callback passes to
  \<^verbatim>\<open>respond\<close> goes to that socket only); when none has been registered the message is dropped
  and nothing is emitted.
\<close>

theorem message_relay:
  "(socket \<notin> set (this_authenticatedSockets this) \<longrightarrow>
      socket_on_message this socket message =
        (this, [SocketEmit socket (Error ''Not authenticated'')])) \<and>
   (socket \<in> set (this_authenticatedSockets this) \<and> this_onMessageCallback this = Some callback \<longrightarrow>
      socket_on_message this socket message =
        (this\<lparr>provider := fst (callback (provider this) message)\<rparr>,
         OnMessageCalled message #
           map (\<lambda>response. SocketEmit socket (Message response))
               (snd (callback (provider this) message)))) \<and>
   (socket \<in> set (this_authenticatedSockets this) \<and> this_onMessageCallback this = None \<longrightarrow>
      socket_on_message this socket message = (this, []))"
  using message_unauthenticated [of socket this message]
        message_forwarded [of socket this callback message]
        message_dropped [of socket this message]
  by blast

theorem message_relay_witness:
  "''B'' \<notin> set (this_authenticatedSockets ex_wired_A) \<and>
   socket_on_message ex_wired_A ''B'' (JStr ''hello'') =
     (ex_wired_A, [SocketEmit ''B'' (Error ''Not authenticated'')]) \<and>
   ''A'' \<in> set (this_authenticatedSockets ex_wired_A) \<and>
   this_onMessageCallback ex_wired_A = Some ex_onMessage \<and>
   socket_on_message ex_wired_A ''A'' (JStr ''hello'') =
     (ex_wired_A\<lparr>provider := [JStr ''hello'']\<rparr>, [OnMessageCalled (JStr ''hello'')]) \<and>
   ''A'' \<in> set (this_authenticatedSockets ex_bare_A) \<and>
   this_onMessageCallback ex_bare_A = None \<and>
   socket_on_message ex_bare_A ''A'' (JStr ''hello'') = (ex_bare_A, [])"
proof -
  have h: "''B'' \<notin> set (this_authenticatedSockets ex_wired_A)"
          "''A'' \<in> set (this_authenticatedSockets ex_wired_A)"
          "this_onMessageCallback ex_wired_A = Some ex_onMessage"
          "''A'' \<in> set (this_authenticatedSockets ex_bare_A)"
          "this_onMessageCallback ex_bare_A = None"
    by (simp_all add: ex_wired_A_eq ex_wired_eq ex_bare_A_eq ex_bare_eq)
  have v: "fst (ex_onMessage (provider ex_wired_A) (JStr ''hello'')) = [JStr ''hello'']"
          "snd (ex_onMessage (provider ex_wired_A) (JStr ''hello'')) = []"
    by (simp_all add: ex_onMessage_def ex_wired_A_eq ex_wired_eq)
  show ?thesis
    using h
      message_relay [of "''B''" ex_wired_A "JStr ''hello''" ex_onMessage]
      message_relay [of "''A''" ex_wired_A "JStr ''hello''" ex_onMessage]
      message_relay [of "''A''" ex_bare_A "JStr ''hello''" ex_onMessage]
    by (simp add: v)
qed

text \<open>
  The claim as stated fails where no message callback is registered: the message of an
  authenticated socket is forwarded to nobody.
\<close>

theorem message_without_callback_counterexample:
  "''A'' \<in> set (this_authenticatedSockets ex_bare_A) \<and>
   connected ex_bare_A ''A'' \<and>
   step ex_bare_A (ClientMessage ''A'' (JStr ''hello'')) = (ex_bare_A, [])"
  by (simp add: ex_bare_A_eq ex_bare_eq connected_def open_sockets_def socket_on_message_def)

section \<open>Outbound broadcast (C2)\<close>

lemma io_to_emit_set:
  "set (io_to_emit sockets room ev) = (if room \<in> set sockets then {SocketEmit room ev} else {})"
  by (auto simp: io_to_emit_def)

text \<open>
  What \<^verbatim>\<open>broadcast\<close> does reach: the authenticated sockets of the server that \<^verbatim>\<open>_io\<close> holds.
\<close>

lemma broadcast_member:
  "(e \<in> set (broadcast this m)) =
     (\<exists>c sockets. e = SocketEmit c (Message m) \<and> c \<in> set (this_authenticatedSockets this) \<and>
                  this_io this = Some sockets \<and> c \<in> set sockets)"
proof (cases "this_io this")
  case None
  then show ?thesis by (simp add: broadcast_def)
next
  case (Some sockets)
  then show ?thesis
    by (simp add: broadcast_def io_to_emit_set) (auto split: if_splits)
qed

lemma start_pin: "this_pin (fst (start this preferredPort env)) = this_pin this"
  by (simp add: start_def registerSession_def setupSocketIO_def Let_def split: sum.splits option.splits)

lemma start_authenticatedSockets:
  "this_authenticatedSockets (fst (start this preferredPort env)) = this_authenticatedSockets this"
  by (simp add: start_def registerSession_def setupSocketIO_def Let_def split: sum.splits option.splits)

lemma stop_pin: "this_pin (stop this) = this_pin this"
  by (simp add: stop_def unregisterSession_def Let_def split: option.splits)

lemma socket_on_message_fst:
  "this_pin (fst (socket_on_message this socket message)) = this_pin this \<and>
   this_authenticatedSockets (fst (socket_on_message this socket message)) = this_authenticatedSockets this"
  by (simp add: socket_on_message_def split_beta split: option.splits)

lemma socket_on_authenticate_pin:
  "this_pin (fst (socket_on_authenticate this socket data_pin)) = this_pin this"
  by (simp add: socket_on_authenticate_def Let_def split: option.splits)

lemma step_pin: "this_pin (fst (step this a)) = this_pin this"
  by (cases a)
     (simp_all add: start_pin stop_pin onGetState_def onMessage_def socket_on_message_fst
        socket_on_authenticate_pin socket_on_disconnect_def split: option.splits)

lemma step_keeps_unauthenticated:
  assumes "c \<notin> set (this_authenticatedSockets this)"
      and "\<And>p. a = Authenticate c p \<Longrightarrow> p \<noteq> this_pin this"
  shows "c \<notin> set (this_authenticatedSockets (fst (step this a)))"
proof (cases a)
  case (Authenticate socket data_pin)
  show ?thesis
  proof (cases "socket = c")
    case True
    then have "data_pin \<noteq> this_pin this" using assms(2) Authenticate by simp
    then show ?thesis using assms(1) Authenticate by (simp add: authenticate_mismatch)
  next
    case False
    then show ?thesis using assms(1) Authenticate
      by (simp add: socket_on_authenticate_def Let_def set_set_add split: option.splits)
  qed
qed (use assms(1) in \<open>simp_all add: start_authenticatedSockets stop_def unregisterSession_def Let_def
       onGetState_def onMessage_def socket_on_message_fst socket_on_disconnect_def set_set_delete
       split: option.splits\<close>)

lemma step_no_message_to_unauthenticated:
  assumes "c \<notin> set (this_authenticatedSockets this)"
  shows "SocketEmit c (Message m) \<notin> set (snd (step this a))"
proof (cases a)
  case (Broadcast message)
  then show ?thesis using assms by (auto simp: broadcast_member)
next
  case (Authenticate socket data_pin)
  then show ?thesis
    by (auto simp: socket_on_authenticate_def Let_def split: option.splits)
next
  case (ClientMessage socket message)
  then show ?thesis using assms
    by (auto simp: socket_on_message_def split_beta split: option.splits)
qed (simp_all split: option.splits)

text \<open>
  The half of the claim that holds: a socket that is not authenticated and never sends the
  right PIN gets no \<^verbatim>\<open>message\<close> event, whatever else happens to the bridge.
\<close>

lemma run_no_message_to_unauthenticated:
  assumes "c \<notin> set (this_authenticatedSockets this)"
      and "\<forall>p. Authenticate c p \<in> set acts \<longrightarrow> p \<noteq> this_pin this"
  shows "SocketEmit c (Message m) \<notin> set (snd (run this acts))"
  using assms
proof (induction acts arbitrary: this)
  case Nil
  then show ?case by simp
next
  case (Cons a acts)
  let ?this1 = "fst (step this a)"
  have u: "c \<notin> set (this_authenticatedSockets ?this1)"
    using Cons.prems by (intro step_keeps_unauthenticated) auto
  have p: "\<forall>p. Authenticate c p \<in> set acts \<longrightarrow> p \<noteq> this_pin ?this1"
    using Cons.prems(2) by (simp add: step_pin)
  have rest: "SocketEmit c (Message m) \<notin> set (snd (run ?this1 acts))"
    using Cons.IH [OF u p] .
  have first: "SocketEmit c (Message m) \<notin> set (snd (step this a))"
    using Cons.prems(1) by (rule step_no_message_to_unauthenticated)
  show ?case
    using first rest by (simp add: split_beta)
qed

text \<open>
  Claim C2 says that \<^verbatim>\<open>broadcast(m)\<close> delivers \<open>m\<close> to every connection that is open and
  authenticated at that moment, and to no other. The code does not: \<^verbatim>\<open>start()\<close> on an instance
  that is running makes a new Socket.IO server and closes nothing, and \<^verbatim>\<open>broadcast\<close> emits on
  the new server only. Here socket \<open>A\<close> has authenticated and \<^verbatim>\<open>start(3000)\<close> is called a second
  time: \<open>A\<close> is still open and still in the authenticated set, and the broadcast reaches nobody.
\<close>

theorem broadcast_misses_socket_after_second_start:
  "connected ex_restarted ''A'' \<and>
   ''A'' \<in> set (this_authenticatedSockets ex_restarted) \<and>
   broadcast ex_restarted (JStr ''update'') = [] \<and>
   snd (run ex_wired [Authenticate ''A'' ''5500'', Start (Some 3000) ex_env2,
                      Broadcast (JStr ''update'')]) =
     [SocketEmit ''A'' (Authenticated True None), GetStateCalled,
      SocketEmit ''A'' (InitialState (JObj [(''queue'', JArr [])]))]"
proof -
  have a: "connected ex_restarted ''A''"
    by (simp add: ex_restarted_eq connected_def open_sockets_def)
  have b: "''A'' \<in> set (this_authenticatedSockets ex_restarted)"
    by (simp add: ex_restarted_eq)
  have c: "broadcast ex_restarted (JStr ''update'') = []"
    by (simp add: ex_restarted_eq broadcast_def io_to_emit_def)
  have s1: "step ex_wired (Authenticate ''A'' ''5500'') =
      (ex_wired_A, [SocketEmit ''A'' (Authenticated True None), GetStateCalled,
                    SocketEmit ''A'' (InitialState (JObj [(''queue'', JArr [])]))])"
    unfolding ex_wired_A_def
    by (simp add: ex_wired_eq connected_def open_sockets_def socket_on_authenticate_def
          set_add_def ex_getState_def)
  have s2: "step ex_wired_A (Start (Some 3000) ex_env2) = (ex_restarted, [])"
    by (simp add: ex_restarted_def)
  have s3: "step ex_restarted (Broadcast (JStr ''update'')) = (ex_restarted, [])"
    by (simp add: c)
  have d: "snd (run ex_wired [Authenticate ''A'' ''5500'', Start (Some 3000) ex_env2,
                      Broadcast (JStr ''update'')]) =
     [SocketEmit ''A'' (Authenticated True None), GetStateCalled,
      SocketEmit ''A'' (InitialState (JObj [(''queue'', JArr [])]))]"
    by (simp add: s1 s2 s3 del: step.simps)
  show ?thesis using a b c d by blast
qed

section \<open>Snapshot on authentication (C1)\<close>

lemma run_Cons:
  "run this (a # acts) = (fst (run (fst (step this a)) acts), snd (step this a) @ snd (run (fst (step this a)) acts))"
  by (simp add: split_beta)

text \<open>
  Claim C1, as amended. When a connected socket sends \<^verbatim>\<open>authenticate\<close> with the current secret,
  the bridge emits the success acknowledgment and then, when a state callback has been
  registered with \<^verbatim>\<open>onGetState\<close>, exactly one \<^verbatim>\<open>initialState\<close> event, to that socket only, whose
  payload is the value of the callback at that moment; everything the bridge emits for later
  events, every \<^verbatim>\<open>message\<close> to that socket among it, comes after. When no state callback is
  registered the bridge emits the acknowledgment and no \<^verbatim>\<open>initialState\<close>.
\<close>

theorem authenticate_sends_initialState:
  "connected this socket \<longrightarrow>
   run this (Authenticate socket (this_pin this) # acts) =
     (fst (run (this\<lparr>this_authenticatedSockets := set_add socket (this_authenticatedSockets this)\<rparr>) acts),
      SocketEmit socket (Authenticated True None) #
      (case this_getStateCallback this of
         Some callback \<Rightarrow> [GetStateCalled, SocketEmit socket (InitialState (callback (provider this)))]
       | None \<Rightarrow> []) @
      snd (run (this\<lparr>this_authenticatedSockets := set_add socket (this_authenticatedSockets this)\<rparr>) acts))"
proof
  assume c: "connected this socket"
  have "step this (Authenticate socket (this_pin this)) =
          socket_on_authenticate this socket (this_pin this)"
    using c by simp
  then show "run this (Authenticate socket (this_pin this) # acts) =
     (fst (run (this\<lparr>this_authenticatedSockets := set_add socket (this_authenticatedSockets this)\<rparr>) acts),
      SocketEmit socket (Authenticated True None) #
      (case this_getStateCallback this of
         Some callback \<Rightarrow> [GetStateCalled, SocketEmit socket (InitialState (callback (provider this)))]
       | None \<Rightarrow> []) @
      snd (run (this\<lparr>this_authenticatedSockets := set_add socket (this_authenticatedSockets this)\<rparr>) acts))"
    unfolding run_Cons by (simp add: authenticate_match)
qed

theorem authenticate_sends_initialState_witness:
  "connected ex_wired ''A'' \<and>
   snd (run ex_wired [Authenticate ''A'' (this_pin ex_wired), Broadcast (JStr ''update'')]) =
     [SocketEmit ''A'' (Authenticated True None),
      GetStateCalled,
      SocketEmit ''A'' (InitialState (JObj [(''queue'', JArr [])])),
      SocketEmit ''A'' (Message (JStr ''update''))]"
proof -
  have h: "connected ex_wired ''A''"
    by (simp add: ex_wired_eq connected_def open_sockets_def)
  have eq: "run ex_wired (Authenticate ''A'' (this_pin ex_wired) # [Broadcast (JStr ''update'')]) =
     (fst (run (ex_wired\<lparr>this_authenticatedSockets := set_add ''A'' (this_authenticatedSockets ex_wired)\<rparr>)
             [Broadcast (JStr ''update'')]),
      SocketEmit ''A'' (Authenticated True None) #
      (case this_getStateCallback ex_wired of
         Some callback \<Rightarrow> [GetStateCalled, SocketEmit ''A'' (InitialState (callback (provider ex_wired)))]
       | None \<Rightarrow> []) @
      snd (run (ex_wired\<lparr>this_authenticatedSockets := set_add ''A'' (this_authenticatedSockets ex_wired)\<rparr>)
             [Broadcast (JStr ''update'')]))"
    using h authenticate_sends_initialState [of ex_wired "''A''" "[Broadcast (JStr ''update'')]"]
    by blast
  show ?thesis
    unfolding eq using h
    by (simp add: ex_wired_eq set_add_def broadcast_def io_to_emit_def ex_getState_def)
qed

text \<open>
  The claim as stated fails where no state callback is registered: the right PIN is
  acknowledged and no \<^verbatim>\<open>initialState\<close> follows.
\<close>

theorem authenticate_without_callback_counterexample:
  "connected ex_bare ''A'' \<and>
   step ex_bare (Authenticate ''A'' (this_pin ex_bare)) =
     (ex_bare\<lparr>this_authenticatedSockets := [''A'']\<rparr>,
      [SocketEmit ''A'' (Authenticated True None)])"
  by (simp add: ex_bare_eq connected_def open_sockets_def socket_on_authenticate_def set_add_def)

section \<open>Lifetime of the secret (C6)\<close>

lemma constructor_pin: "this_pin (constructor gs owner random t suffix) = generatePin random"
  by (simp add: constructor_def)

lemma start_registers:
  assumes "snd (start this preferredPort env) = Inr p"
  shows "context_globalState (fst (start this preferredPort env)) =
           filter (\<lambda>s. port s \<noteq> p) (context_globalState this) @
           [\<lparr> id_info = this_sessionId this,
              workspaceName = (case folderName env of
                                 None \<Rightarrow> ''Untitled Workspace''
                               | Some n \<Rightarrow> if n = [] then ''Untitled Workspace'' else n),
              port = p, startTime = now env, pin = this_pin this \<rparr>]"
  using assms
  by (auto simp: start_def registerSession_def setupSocketIO_def Let_def
           split: sum.splits option.splits if_splits)

lemma start_sessionId: "this_sessionId (fst (start this preferredPort env)) = this_sessionId this"
  by (simp add: start_def registerSession_def setupSocketIO_def Let_def split: sum.splits option.splits)

text \<open>
  Claim C6, as amended. The secret is sampled by the constructor of the bridge instance, and
  every \<^verbatim>\<open>start()\<close> that succeeds stores the instance's secret in the \<^verbatim>\<open>pin\<close> field of the
  session record it appends to the registry in the global state, next to the instance's
  session id and port: the secret is not held in memory only.
\<close>

theorem secret_from_constructor_stored_in_registry:
  "this_pin (constructor gs owner random t suffix) = generatePin random \<and>
   (snd (start this preferredPort env) = Inr p \<longrightarrow>
      context_globalState (fst (start this preferredPort env)) \<noteq> [] \<and>
      id_info (last (context_globalState (fst (start this preferredPort env)))) =
        this_sessionId (fst (start this preferredPort env)) \<and>
      port (last (context_globalState (fst (start this preferredPort env)))) = p \<and>
      pin (last (context_globalState (fst (start this preferredPort env)))) =
        this_pin (fst (start this preferredPort env)))"
proof (intro conjI impI)
  show "this_pin (constructor gs owner random t suffix) = generatePin random"
    by (rule constructor_pin)
next
  assume ok: "snd (start this preferredPort env) = Inr p"
  note reg = start_registers [OF ok]
  show "context_globalState (fst (start this preferredPort env)) \<noteq> []"
    unfolding reg by simp
  show "id_info (last (context_globalState (fst (start this preferredPort env)))) =
        this_sessionId (fst (start this preferredPort env))"
    unfolding reg by (simp add: start_sessionId)
  show "port (last (context_globalState (fst (start this preferredPort env)))) = p"
    unfolding reg by simp
  show "pin (last (context_globalState (fst (start this preferredPort env)))) =
        this_pin (fst (start this preferredPort env))"
    unfolding reg by (simp add: start_pin)
qed

theorem secret_from_constructor_stored_in_registry_witness:
  "snd (start ex_new (Some 3000) ex_env) = Inr 3001 \<and>
   this_pin (fst (start ex_new (Some 3000) ex_env)) = ''5500'' \<and>
   pin (last (context_globalState (fst (start ex_new (Some 3000) ex_env)))) =
     this_pin (fst (start ex_new (Some 3000) ex_env)) \<and>
   port (last (context_globalState (fst (start ex_new (Some 3000) ex_env)))) = 3001"
proof -
  have ok: "snd (start ex_new (Some 3000) ex_env) = Inr 3001"
    by (simp add: ex_start)
  have p: "this_pin (fst (start ex_new (Some 3000) ex_env)) = ''5500''"
    by (simp add: ex_start) (simp add: ex_new_eq)
  show ?thesis
    using ok p
      secret_from_constructor_stored_in_registry [of "[ex_other]" "[]" "1 / 2" 1000 "''k3j9x2a''"
         ex_new "Some 3000" ex_env 3001]
    by blast
qed

text \<open>
  The claim as stated fails: \<^verbatim>\<open>start()\<close> leaves the secret as it was, also after a
  \<^verbatim>\<open>stop()\<close>, and the registry in the global state holds the secret.
\<close>

theorem start_keeps_secret_counterexample:
  "snd (start ex_new (Some 3000) ex_env) = Inr 3001 \<and>
   this_pin (fst (start ex_new (Some 3000) ex_env)) = this_pin ex_new \<and>
   this_pin (fst (run ex_new [Start (Some 3000) ex_env, Stop, Start (Some 3000) ex_env])) =
     this_pin ex_new \<and>
   map pin (context_globalState (fst (start ex_new (Some 3000) ex_env))) =
     [''4821'', this_pin ex_new]"
proof -
  have a: "snd (start ex_new (Some 3000) ex_env) = Inr 3001"
    by (simp add: ex_start)
  have b: "this_pin (fst (start ex_new (Some 3000) ex_env)) = this_pin ex_new"
    by (rule start_pin)
  have c: "this_pin (fst (run ex_new [Start (Some 3000) ex_env, Stop, Start (Some 3000) ex_env])) =
     this_pin ex_new"
    by (simp add: start_pin stop_pin)
  have d: "map pin (context_globalState (fst (start ex_new (Some 3000) ex_env))) =
     [''4821'', this_pin ex_new]"
    by (simp add: ex_start ex_other_def ex_record_def) (simp add: ex_new_eq)
  show ?thesis using a b c d by simp
qed

section \<open>Stop (C8)\<close>

lemma stop_idem: "stop (stop this) = stop this"
  by (simp add: stop_def unregisterSession_def Let_def split: option.splits)

lemma stop_globalState:
  "context_globalState (stop this) =
     filter (\<lambda>s. id_info s \<noteq> this_sessionId this) (context_globalState this)"
  by (simp add: stop_def unregisterSession_def Let_def split: option.splits)

lemma stop_fields:
  "this_io (stop this) = None \<and> this_server (stop this) = None \<and>
   this_authenticatedSockets (stop this) = [] \<and> this_sessionId (stop this) = this_sessionId this"
  by (simp add: stop_def unregisterSession_def Let_def split: option.splits)

text \<open>
  Claim C8. \<^verbatim>\<open>stop()\<close> is idempotent: a second \<^verbatim>\<open>stop()\<close> changes nothing. After one call and after
  two, on any instance and so on one that was never started, no record of the registry has
  the session id of this instance, and the instance has no server, no Socket.IO server and
  no authenticated socket. \<^verbatim>\<open>stop\<close> has no failing branch.
\<close>

theorem stop_idempotent_and_unregisters:
  "stop (stop this) = stop this \<and>
   (\<forall>s \<in> set (context_globalState (stop this)). id_info s \<noteq> this_sessionId this) \<and>
   (\<forall>s \<in> set (context_globalState (stop (stop this))). id_info s \<noteq> this_sessionId this) \<and>
   (\<forall>s \<in> set (context_globalState (stop (constructor gs owner random t suffix))).
      id_info s \<noteq> this_sessionId (constructor gs owner random t suffix)) \<and>
   this_io (stop this) = None \<and> this_server (stop this) = None \<and>
   this_authenticatedSockets (stop this) = []"
  by (simp add: stop_idem stop_globalState stop_fields)

theorem stop_idempotent_and_unregisters_witness:
  "context_globalState ex_wired_A = [ex_other, ex_record] \<and>
   context_globalState (stop ex_wired_A) = [ex_other] \<and>
   id_info ex_other \<noteq> this_sessionId ex_wired_A \<and>
   stop (stop ex_wired_A) = stop ex_wired_A"
proof -
  have a: "context_globalState ex_wired_A = [ex_other, ex_record]"
    by (simp add: ex_wired_A_eq ex_wired_eq)
  have b: "context_globalState (stop ex_wired_A) = [ex_other]"
    by (simp add: stop_globalState ex_wired_A_eq ex_wired_eq ex_other_def ex_record_def)
  note inst = stop_idempotent_and_unregisters [of ex_wired_A "[ex_other]" "[]" "1 / 2" 1000 "''k3j9x2a''"]
  from inst have "\<forall>s \<in> set (context_globalState (stop ex_wired_A)). id_info s \<noteq> this_sessionId ex_wired_A"
    by blast
  then have c: "id_info ex_other \<noteq> this_sessionId ex_wired_A"
    unfolding b by simp
  from inst have d: "stop (stop ex_wired_A) = stop ex_wired_A"
    by blast
  show ?thesis using a b c d by blast
qed

section \<open>The session listing (C10)\<close>

text \<open>
  Claim C10. \<^verbatim>\<open>GET /api/sessions\<close> answers every request, with or without a PIN in the query,
  with the JSON array of all registered session records, each with all of its fields, the
  \<^verbatim>\<open>pin\<close> among them.
\<close>

theorem api_sessions_returns_records_with_pin:
  "handle_get this ApiSessions query_pin =
     ResJson (JArr (map SessionInfo_json (context_globalState this))) \<and>
   json_field ''id'' (SessionInfo_json s) = Some (JStr (id_info s)) \<and>
   json_field ''workspaceName'' (SessionInfo_json s) = Some (JStr (workspaceName s)) \<and>
   json_field ''port'' (SessionInfo_json s) = Some (JNum (port s)) \<and>
   json_field ''startTime'' (SessionInfo_json s) = Some (JNum (startTime s)) \<and>
   json_field ''pin'' (SessionInfo_json s) = Some (JStr (pin s))"
  by (simp add: handle_get_def getAllSessions_def SessionInfo_json_def)

theorem api_sessions_returns_records_with_pin_witness:
  "handle_get ex_wired ApiSessions None =
     ResJson (JArr [SessionInfo_json ex_other, SessionInfo_json ex_record]) \<and>
   json_field ''pin'' (SessionInfo_json ex_record) = Some (JStr ''5500'') \<and>
   this_pin ex_wired = ''5500''"
  using api_sessions_returns_records_with_pin [of ex_wired None ex_record]
  by (simp add: ex_wired_eq ex_record_def)

end
